theory Spec2Isabelle
  imports Complex_Main "HOL-Library.Word" "HOL-Library.Sublist"
begin

unbundle bit_operations_syntax

section \<open>Data model\<close>

text \<open>
  The module \<open>nixUtils\<close> works on JavaScript strings, on Node \<open>Buffer\<close>s and on
  portable paths.  A string is a list of characters (one \<open>char\<close> per code unit),
  a buffer is a list of bytes, and a path is a string.
\<close>

type_synonym byte = "8 word"
type_synonym buffer = "byte list"
type_synonym path = string

definition BASE32_CHARSET :: string where
  "BASE32_CHARSET = ''0123456789abcdfghijklmnpqrsvwxyz''"

definition CACHE_KEY_NS :: string where
  "CACHE_KEY_NS = ''nix.1/''"

section \<open>JavaScript and Node primitives used by the module\<close>

text \<open>\<open>s.startsWith(p)\<close> and \<open>s.slice(n)\<close> for \<open>0 \<le> n\<close>.\<close>

definition startsWith :: "string \<Rightarrow> string \<Rightarrow> bool" where
  "startsWith s p = (take (length p) s = p)"

definition slice_from :: "string \<Rightarrow> nat \<Rightarrow> string" where
  "slice_from s n = drop n s"

text \<open>\<open>s.slice(0, n)\<close> for \<open>0 \<le> n\<close>.\<close>

definition slice_to :: "string \<Rightarrow> nat \<Rightarrow> string" where
  "slice_to s n = take n s"

text \<open>
  \<open>n.toString(2)\<close> on a non-negative integer: the binary digits, most significant
  first, with no leading zero; \<open>"0"\<close> for zero.
\<close>

fun toString2 :: "nat \<Rightarrow> string" where
  "toString2 n =
     (if n < 2 then [if n = 0 then CHR ''0'' else CHR ''1'']
      else toString2 (n div 2) @ [if n mod 2 = 0 then CHR ''0'' else CHR ''1''])"

declare toString2.simps [simp del]

text \<open>\<open>s.padStart(n, c)\<close> with a one-character filler.\<close>

definition padStart :: "string \<Rightarrow> nat \<Rightarrow> char \<Rightarrow> string" where
  "padStart s n c = replicate (n - length s) c @ s"

text \<open>
  \<open>parseInt(s, 2)\<close> on a string that starts with a binary digit or is empty
  (the only strings the module passes): the value of the longest prefix of binary
  digits, and \<open>NaN\<close> (here \<open>None\<close>) when that prefix is empty.
\<close>

definition isBinaryDigit :: "char \<Rightarrow> bool" where
  "isBinaryDigit c = (c = CHR ''0'' \<or> c = CHR ''1'')"

definition parseInt2 :: "string \<Rightarrow> nat option" where
  "parseInt2 s =
     (let ds = takeWhile isBinaryDigit s
      in if ds = [] then None
         else Some (foldl (\<lambda>acc c. 2 * acc + (if c = CHR ''1'' then 1 else 0)) 0 ds))"

text \<open>
  \<open>result += s[i]\<close>: indexing a string by a number yields the character there, or
  \<open>undefined\<close> (which \<open>+=\<close> appends as the text \<open>undefined\<close>) when the index is
  \<open>NaN\<close> or out of range.
\<close>

definition appendCharAt :: "string \<Rightarrow> string \<Rightarrow> nat option \<Rightarrow> string" where
  "appendCharAt result s i =
     (case i of
        None \<Rightarrow> result @ ''undefined''
      | Some k \<Rightarrow> if k < length s then result @ [s ! k] else result @ ''undefined'')"

text \<open>\<open>buf.toString("hex")\<close>: two lowercase hexadecimal digits per byte.\<close>

definition hexDigit :: "nat \<Rightarrow> char" where
  "hexDigit n = ''0123456789abcdef'' ! (n mod 16)"

definition toString_hex :: "buffer \<Rightarrow> string" where
  "toString_hex buf = concat (map (\<lambda>b. [hexDigit (unat b div 16), hexDigit (unat b mod 16)]) buf)"

subsection \<open>Portable paths\<close>

text \<open>
  \<open>ppath\<close> of the file-system library is Node's \<open>path.posix\<close>.  \<open>join\<close> glues its
  non-empty arguments with a slash and normalises the result: empty and \<open>.\<close>
  segments disappear, a \<open>..\<close> segment removes the segment before it (and is kept
  only in a relative path that has nothing left to remove), a trailing slash is kept.
\<close>

fun split_sep :: "string \<Rightarrow> string list" where
  "split_sep [] = [[]]"
| "split_sep (c # cs) =
     (if c = CHR ''/'' then [] # split_sep cs
      else (case split_sep cs of seg # segs \<Rightarrow> (c # seg) # segs | [] \<Rightarrow> [[c]]))"

fun join_sep :: "string list \<Rightarrow> string" where
  "join_sep [] = []"
| "join_sep [s] = s"
| "join_sep (s # t # ss) = s @ CHR ''/'' # join_sep (t # ss)"

fun normalizeSegments :: "bool \<Rightarrow> string list \<Rightarrow> string list \<Rightarrow> string list" where
  "normalizeSegments allowAboveRoot [] res = res"
| "normalizeSegments allowAboveRoot (s # ss) res =
     (if s = [] \<or> s = ''.'' then normalizeSegments allowAboveRoot ss res
      else if s = ''..'' then
        (if res \<noteq> [] \<and> last res \<noteq> ''..'' then normalizeSegments allowAboveRoot ss (butlast res)
         else if allowAboveRoot then normalizeSegments allowAboveRoot ss (res @ [''..''])
         else normalizeSegments allowAboveRoot ss res)
      else normalizeSegments allowAboveRoot ss (res @ [s]))"

definition normalizeString :: "path \<Rightarrow> bool \<Rightarrow> path" where
  "normalizeString p allowAboveRoot = join_sep (normalizeSegments allowAboveRoot (split_sep p) [])"

definition ppath_normalize :: "path \<Rightarrow> path" where
  "ppath_normalize p =
     (if p = [] then ''.''
      else
        let isAbsolute = (hd p = CHR ''/'');
            trailingSeparator = (last p = CHR ''/'');
            q = normalizeString p (\<not> isAbsolute)
        in if q = [] then (if isAbsolute then ''/'' else if trailingSeparator then ''./'' else ''.'')
           else
             let q' = (if trailingSeparator then q @ ''/'' else q)
             in if isAbsolute then CHR ''/'' # q' else q')"

definition ppath_join :: "path \<Rightarrow> path \<Rightarrow> path" where
  "ppath_join a b =
     (if a = [] then (if b = [] then ''.'' else ppath_normalize b)
      else if b = [] then ppath_normalize a
      else ppath_normalize (a @ ''/'' @ b))"

text \<open>
  \<open>ppath.dirname\<close>: scanning from the end down to index 1, skip trailing slashes,
  skip the last segment, and cut at the slash found there.
\<close>

definition ppath_dirname :: "path \<Rightarrow> path" where
  "ppath_dirname p =
     (if p = [] then ''.''
      else
        let hasRoot = (hd p = CHR ''/'');
            afterName = dropWhile (\<lambda>c. c \<noteq> CHR ''/'') (dropWhile (\<lambda>c. c = CHR ''/'') (rev (tl p)))
        in if afterName = [] then (if hasRoot then ''/'' else ''.'')
           else if hasRoot \<and> length afterName = 1 then ''//''
           else take (length afterName) p)"

text \<open>
  \<open>s.trim()\<close>: white space and line terminators are removed at both ends (of the
  code units below 256 these are tab, line feed, vertical tab, form feed, carriage
  return, space and no-break space).
\<close>

definition isWhiteSpace :: "char \<Rightarrow> bool" where
  "isWhiteSpace c = ((of_char c :: nat) \<in> {9, 10, 11, 12, 13, 32, 160})"

definition trim :: "string \<Rightarrow> string" where
  "trim s = rev (dropWhile isWhiteSpace (rev (dropWhile isWhiteSpace s)))"

section \<open>Hash codec\<close>

text \<open>
  \<open>computeHash(algorithm, data)\<close> is \<open>createHash(algorithm).update(data).digest()\<close>
  of Node's \<open>crypto\<close>.  The digest function is a parameter of the model: every
  theorem below holds for every function \<open>createHash\<close>.
\<close>

definition computeHash :: "(string \<Rightarrow> string \<Rightarrow> buffer) \<Rightarrow> string \<Rightarrow> string \<Rightarrow> buffer" where
  "computeHash createHash algorithm data = createHash algorithm data"

text \<open>
  \<open>compressHash\<close>: \<open>Buffer.alloc(size)\<close> is \<open>size\<close> zero bytes (the parameter
  is \<open>sz\<close> here), and the loop runs
  \<open>idx\<close> over the input.  With \<open>size = 0\<close> the index \<open>idx % size\<close> is \<open>NaN\<close> and the
  assignment leaves the (empty) buffer as it is.
\<close>

function compressHash_loop :: "buffer \<Rightarrow> nat \<Rightarrow> nat \<Rightarrow> buffer \<Rightarrow> buffer" where
  "compressHash_loop hash sz idx result =
     (if idx < length hash
      then compressHash_loop hash sz (idx + 1)
             (if sz = 0 then result
              else result[idx mod sz := (result ! (idx mod sz)) XOR (hash ! idx)])
      else result)"
  by pat_completeness auto
termination
  by (relation "measure (\<lambda>(hash, sz, idx, result). length hash - idx)") auto

declare compressHash_loop.simps [simp del]

definition compressHash :: "buffer \<Rightarrow> nat \<Rightarrow> buffer" where
  "compressHash hash sz = compressHash_loop hash sz 0 (replicate sz 0)"

text \<open>
  \<open>encodeBase32\<close>: the bytes reversed, each written as eight binary digits, all
  joined into one string; the loop takes five characters at a time until the string
  is empty.
\<close>

definition byteBits :: "byte \<Rightarrow> string" where
  "byteBits n = padStart (toString2 (unat n)) 8 (CHR ''0'')"

definition bufferBits :: "buffer \<Rightarrow> string" where
  "bufferBits buf = concat (map byteBits (rev buf))"

function encodeBase32_loop :: "string \<Rightarrow> string \<Rightarrow> string" where
  "encodeBase32_loop bits result =
     (if bits \<noteq> []
      then encodeBase32_loop (slice_from bits 5)
             (appendCharAt result BASE32_CHARSET (parseInt2 (slice_to bits 5)))
      else result)"
  by pat_completeness auto
termination
  by (relation "measure (\<lambda>(bits, result). length bits)") (auto simp: slice_from_def)

declare encodeBase32_loop.simps [simp del]

definition encodeBase32 :: "buffer \<Rightarrow> string" where
  "encodeBase32 buf = encodeBase32_loop (bufferBits buf) []"

section \<open>Store path derivation\<close>

definition computeFixedOutputStorePath ::
  "(string \<Rightarrow> string \<Rightarrow> buffer) \<Rightarrow> string \<Rightarrow> string \<Rightarrow> string \<Rightarrow> path \<Rightarrow> path" where
  "computeFixedOutputStorePath createHash name hash hashAlgorithm storePath =
     (let hash' = (if startsWith hash CACHE_KEY_NS then slice_from hash (length CACHE_KEY_NS) else hash);
          innerStr = ''fixed:out:'' @ hashAlgorithm @ '':'' @ hash' @ '':'';
          innerHash = computeHash createHash ''sha256'' innerStr;
          innerHashHex = toString_hex innerHash;
          outerStr = ''output:out:sha256:'' @ innerHashHex @ '':'' @ storePath @ '':'' @ name;
          outerHash = computeHash createHash ''sha256'' outerStr;
          outerHash32 = encodeBase32 (compressHash outerHash 20)
      in ppath_join storePath (outerHash32 @ ''-'' @ name))"

text \<open>The call with the two default arguments, as \<open>fetchPackageFromNixStore\<close> makes it.\<close>

definition computeFixedOutputStorePath_default ::
  "(string \<Rightarrow> string \<Rightarrow> buffer) \<Rightarrow> string \<Rightarrow> string \<Rightarrow> path" where
  "computeFixedOutputStorePath_default createHash name hash =
     computeFixedOutputStorePath createHash name hash ''sha512'' ''/nix/store''"

section \<open>Derivation names\<close>

text \<open>
  The character class \<open>[a-zA-Z0-9+._?=-]\<close> of the second regular expression, whose
  complement is what gets replaced.
\<close>

definition nameChar :: "char \<Rightarrow> bool" where
  "nameChar c =
     (c \<in> set ''abcdefghijklmnopqrstuvwxyzABCDEFGHIJKLMNOPQRSTUVWXYZ0123456789+._?=-'')"

text \<open>\<open>.replace(/^\.+/, "")\<close>: the leading run of dots is removed.\<close>

definition stripLeadingDots :: "string \<Rightarrow> string" where
  "stripLeadingDots name = dropWhile (\<lambda>c. c = CHR ''.'') name"

text \<open>
  \<open>.replace(/[^a-zA-Z0-9+._?=-]+/g, "-")\<close>: every maximal run of characters
  outside the class becomes one dash.
\<close>

function replaceInvalidRuns :: "string \<Rightarrow> string" where
  "replaceInvalidRuns [] = []"
| "replaceInvalidRuns (c # cs) =
     (if nameChar c then c # replaceInvalidRuns cs
      else CHR ''-'' # replaceInvalidRuns (dropWhile (\<lambda>d. \<not> nameChar d) cs))"
  by pat_completeness auto
termination
  by (relation "measure length") (auto simp: less_Suc_eq_le length_dropWhile_le)

definition sanitizeDerivationName :: "string \<Rightarrow> string" where
  "sanitizeDerivationName name =
     (let s = slice_to (replaceInvalidRuns (stripLeadingDots name)) 207
      in if s = [] then ''unknown'' else s)"

section \<open>The fetch cache\<close>

text \<open>
  \<open>fetchPackageFromNixStore\<close> is asynchronous code over the file system, a subprocess and
  the caller's callbacks.  What it throws is a value: \<open>AssertionFailure\<close> is the error
  the function raises itself when the imported path is not the computed one, \<open>Rejected\<close>
  a rejection of an awaited external call, with its message.
\<close>

datatype error = AssertionFailure | Rejected string

text \<open>
  The returned triple: the archive opened read-only at a path, the function that releases
  it, and the checksum.
\<close>

datatype zipfs = ZipFS path

datatype release = DiscardAndClose zipfs

text \<open>
  The external calls a fetch makes, each recorded with its arguments and its outcome
  (\<open>Inl\<close> a rejection, \<open>Inr\<close> the value).
\<close>

datatype event =
    ExistsPromise path bool
  | OnHit
  | OnMiss
  | Loader "string + path"
  | ChecksumFile path "string + string"
  | UnlinkPromise path "string + unit"
  | RenamePromise path path "string + unit"
  | Execvp string "string list" path "string + string"
  | GetLibzipPromise "string + unit"
  | NewZipFS path "string + unit"

text \<open>
  The collaborators are parameters of the model.  Each external call is a function of the
  state \<open>'w\<close> of the outside world that yields its outcome and the next state, so the
  same call may answer differently at different times (another process may import the
  same path in between).  \<open>execvp\<close> stands for a strict execution: it yields the standard
  output, and a non-zero exit is a rejection.
\<close>

record ('w, 'loc) env =
  stringifyLocator :: "'loc \<Rightarrow> string"
  existsPromise :: "path \<Rightarrow> 'w \<Rightarrow> bool \<times> 'w"
  checksumFile :: "path \<Rightarrow> 'w \<Rightarrow> (string + string) \<times> 'w"
  unlinkPromise :: "path \<Rightarrow> 'w \<Rightarrow> (string + unit) \<times> 'w"
  renamePromise :: "path \<Rightarrow> path \<Rightarrow> 'w \<Rightarrow> (string + unit) \<times> 'w"
  execvp :: "string \<Rightarrow> string list \<Rightarrow> path \<Rightarrow> 'w \<Rightarrow> (string + string) \<times> 'w"
  getLibzipPromise :: "'w \<Rightarrow> (string + unit) \<times> 'w"
  newZipFS :: "path \<Rightarrow> 'w \<Rightarrow> (string + unit) \<times> 'w"

text \<open>
  The third argument of the function; the two reporting callbacks return nothing and are
  taken not to throw.
\<close>

record 'w callbacks =
  onHit :: "'w \<Rightarrow> 'w"
  onMiss :: "'w \<Rightarrow> 'w"
  loader :: "'w \<Rightarrow> (string + path) \<times> 'w"

text \<open>
  A computation takes the state of the outside world and yields a value or a thrown error,
  the external calls it made (in order, each with its outcome) and the new world.
\<close>

type_synonym ('w, 'a) io = "'w \<Rightarrow> (error + 'a) \<times> event list \<times> 'w"

definition io_return :: "'a \<Rightarrow> ('w, 'a) io" where
  "io_return x = (\<lambda>w. (Inr x, [], w))"

definition io_throw :: "error \<Rightarrow> ('w, 'a) io" where
  "io_throw e = (\<lambda>w. (Inl e, [], w))"

definition io_bind :: "('w, 'a) io \<Rightarrow> ('a \<Rightarrow> ('w, 'b) io) \<Rightarrow> ('w, 'b) io" where
  "io_bind m f =
     (\<lambda>w. case m w of
        (Inl e, tr, w') \<Rightarrow> (Inl e, tr, w')
      | (Inr x, tr, w') \<Rightarrow> (case f x w' of (r, tr', w'') \<Rightarrow> (r, tr @ tr', w'')))"

text \<open>
  \<open>await\<close> of an external promise: a rejection is thrown on, a fulfilment is the value;
  either way the call is recorded.
\<close>

definition await :: "('w \<Rightarrow> (string + 'a) \<times> 'w) \<Rightarrow> ((string + 'a) \<Rightarrow> event) \<Rightarrow> ('w, 'a) io" where
  "await call ev =
     (\<lambda>w. case call w of
        (Inl msg, w') \<Rightarrow> (Inl (Rejected msg), [ev (Inl msg)], w')
      | (Inr x, w') \<Rightarrow> (Inr x, [ev (Inr x)], w'))"

text \<open>\<open>xfs.existsPromise\<close> never rejects: it answers \<open>true\<close> or \<open>false\<close>.\<close>

definition await_exists :: "('w, 'loc) env \<Rightarrow> path \<Rightarrow> ('w, bool) io" where
  "await_exists env p =
     (\<lambda>w. case existsPromise env p w of (b, w') \<Rightarrow> (Inr b, [ExistsPromise p b], w'))"

text \<open>A call of one of the two reporting callbacks.\<close>

definition notify :: "('w \<Rightarrow> 'w) \<Rightarrow> event \<Rightarrow> ('w, unit) io" where
  "notify callback ev = (\<lambda>w. (Inr (), [ev], callback w))"

text \<open>The derivation name of a locator: its sanitised text with \<open>.zip\<close> appended.\<close>

definition locatorDerivationName :: "('w, 'loc) env \<Rightarrow> 'loc \<Rightarrow> string" where
  "locatorDerivationName env locator = sanitizeDerivationName (stringifyLocator env locator @ ''.zip'')"

text \<open>
  \<open>fetchPackageFromNixStore\<close>.  The condition \<open>storePath && (await xfs.existsPromise(storePath))\<close>
  is false without any call when \<open>expectedChecksum\<close> is \<open>null\<close> or the empty string (both
  are falsy, so \<open>storePath\<close> is \<open>null\<close>) or when the computed path is the empty string.
\<close>

definition fetchPackageFromNixStore ::
  "('w, 'loc) env \<Rightarrow> (string \<Rightarrow> string \<Rightarrow> buffer) \<Rightarrow> 'loc \<Rightarrow> string option \<Rightarrow> 'w callbacks
   \<Rightarrow> ('w, zipfs \<times> release \<times> string) io" where
  "fetchPackageFromNixStore env createHash locator expectedChecksum cb =
     (let derivationName = locatorDerivationName env locator;
          hit = (\<lambda>c p.
            io_bind (notify (onHit cb) OnHit) (\<lambda>_.
            io_return (c, p)));
          miss =
            io_bind (notify (onMiss cb) OnMiss) (\<lambda>_.
            io_bind (await (loader cb) Loader) (\<lambda>resultPath.
            io_bind (await (checksumFile env resultPath) (ChecksumFile resultPath)) (\<lambda>fileChecksum.
              let checksum = CACHE_KEY_NS @ fileChecksum;
                  storePath = computeFixedOutputStorePath_default createHash derivationName checksum
              in io_bind (await_exists env storePath) (\<lambda>found.
                 io_bind
                   (if found then await (unlinkPromise env resultPath) (UnlinkPromise resultPath)
                    else
                      let tempDir = ppath_dirname resultPath;
                          loadPath = ppath_join tempDir derivationName;
                          args = [''--add-fixed'', ''sha512'', ''./'' @ derivationName]
                      in io_bind (await (renamePromise env resultPath loadPath)
                                    (RenamePromise resultPath loadPath)) (\<lambda>_.
                         io_bind (await (execvp env ''nix-store'' args tempDir)
                                    (Execvp ''nix-store'' args tempDir)) (\<lambda>stdout.
                         io_bind (if trim stdout \<noteq> storePath then io_throw AssertionFailure
                                  else io_return ()) (\<lambda>_.
                         await (unlinkPromise env loadPath) (UnlinkPromise loadPath)))))
                   (\<lambda>_. io_return (checksum, storePath))))))
      in io_bind
           (case expectedChecksum of
              None \<Rightarrow> miss
            | Some c \<Rightarrow>
                if c = [] then miss
                else
                  let storePath = computeFixedOutputStorePath_default createHash derivationName c
                  in if storePath = [] then miss
                     else io_bind (await_exists env storePath) (\<lambda>found.
                            if found then hit c storePath else miss))
           (\<lambda>(checksum, storePath).
              io_bind (await (getLibzipPromise env) GetLibzipPromise) (\<lambda>libzip.
              io_bind (await (newZipFS env storePath) (NewZipFS storePath)) (\<lambda>opened.
                let packageFs = ZipFS storePath;
                    releaseFs = DiscardAndClose packageFs
                in io_return (packageFs, releaseFs, checksum)))))"

section \<open>Auxiliary notions for the proofs\<close>

text \<open>
  A binary digit as a character, the value of a run of bits read most significant bit
  first, and a list cut into groups of five (the last one possibly shorter).
\<close>

definition bitChar :: "bool \<Rightarrow> char" where
  "bitChar b = (if b then CHR ''1'' else CHR ''0'')"

definition bitsValue :: "bool list \<Rightarrow> nat" where
  "bitsValue bs = foldl (\<lambda>acc b. 2 * acc + (if b then 1 else 0)) 0 bs"

function groupsOf5 :: "'a list \<Rightarrow> 'a list list" where
  "groupsOf5 xs = (if xs = [] then [] else take 5 xs # groupsOf5 (drop 5 xs))"
  by pat_completeness auto
termination
  by (relation "measure length") auto

declare groupsOf5.simps [simp del]

text \<open>The bits of a buffer as \<open>encodeBase32\<close> lays them out.\<close>

definition bufferBools :: "buffer \<Rightarrow> bool list" where
  "bufferBools buf = concat (map (\<lambda>b. map (bit b) (rev [0..<8])) (rev buf))"

text \<open>The value of \<open>sanitizeDerivationName\<close> before the placeholder is substituted.\<close>

definition sanitizePipeline :: "string \<Rightarrow> string" where
  "sanitizePipeline name = slice_to (replaceInvalidRuns (stripLeadingDots name)) 207"

text \<open>A digest written in hexadecimal.\<close>

definition isHexDigest :: "string \<Rightarrow> bool" where
  "isHexDigest h = list_all (\<lambda>c. c \<in> set ''0123456789abcdefABCDEF'') h"

text \<open>
  The last segment of a path, and a segment that normalisation keeps as it is.
\<close>

definition basename :: "path \<Rightarrow> string" where
  "basename p = rev (takeWhile (\<lambda>c. c \<noteq> CHR ''/'') (rev p))"

definition plainSegment :: "string \<Rightarrow> bool" where
  "plainSegment seg = (CHR ''/'' \<notin> set seg \<and> seg \<noteq> [] \<and> seg \<noteq> ''.'' \<and> seg \<noteq> ''..'')"

subsection \<open>The parts of a fetch\<close>

text \<open>
  The three parts of \<open>fetchPackageFromNixStore\<close>, named: the \<open>else\<close> branch (report the
  miss, load, checksum, re-derive the path and import unless it exists), the decision between
  hit and miss, and the opening of the archive at the end.  The function is the decision
  followed by the opening.
\<close>

definition openPackage :: "('w, 'loc) env \<Rightarrow> path \<Rightarrow> string \<Rightarrow> ('w, zipfs \<times> release \<times> string) io" where
  "openPackage env storePath checksum =
     io_bind (await (getLibzipPromise env) GetLibzipPromise) (\<lambda>libzip.
     io_bind (await (newZipFS env storePath) (NewZipFS storePath)) (\<lambda>opened.
       let packageFs = ZipFS storePath;
           releaseFs = DiscardAndClose packageFs
       in io_return (packageFs, releaseFs, checksum)))"

definition missBranch ::
  "('w, 'loc) env \<Rightarrow> (string \<Rightarrow> string \<Rightarrow> buffer) \<Rightarrow> string \<Rightarrow> 'w callbacks \<Rightarrow> ('w, string \<times> path) io" where
  "missBranch env createHash derivationName cb =
     io_bind (notify (onMiss cb) OnMiss) (\<lambda>_.
     io_bind (await (loader cb) Loader) (\<lambda>resultPath.
     io_bind (await (checksumFile env resultPath) (ChecksumFile resultPath)) (\<lambda>fileChecksum.
       let checksum = CACHE_KEY_NS @ fileChecksum;
           storePath = computeFixedOutputStorePath_default createHash derivationName checksum
       in io_bind (await_exists env storePath) (\<lambda>found.
          io_bind
            (if found then await (unlinkPromise env resultPath) (UnlinkPromise resultPath)
             else
               let tempDir = ppath_dirname resultPath;
                   loadPath = ppath_join tempDir derivationName;
                   args = [''--add-fixed'', ''sha512'', ''./'' @ derivationName]
               in io_bind (await (renamePromise env resultPath loadPath)
                             (RenamePromise resultPath loadPath)) (\<lambda>_.
                  io_bind (await (execvp env ''nix-store'' args tempDir)
                             (Execvp ''nix-store'' args tempDir)) (\<lambda>stdout.
                  io_bind (if trim stdout \<noteq> storePath then io_throw AssertionFailure
                           else io_return ()) (\<lambda>_.
                  await (unlinkPromise env loadPath) (UnlinkPromise loadPath)))))
            (\<lambda>_. io_return (checksum, storePath))))))"

definition resolvePackage ::
  "('w, 'loc) env \<Rightarrow> (string \<Rightarrow> string \<Rightarrow> buffer) \<Rightarrow> string \<Rightarrow> string option \<Rightarrow> 'w callbacks
   \<Rightarrow> ('w, string \<times> path) io" where
  "resolvePackage env createHash derivationName expectedChecksum cb =
     (case expectedChecksum of
        None \<Rightarrow> missBranch env createHash derivationName cb
      | Some c \<Rightarrow>
          if c = [] then missBranch env createHash derivationName cb
          else
            let storePath = computeFixedOutputStorePath_default createHash derivationName c
            in if storePath = [] then missBranch env createHash derivationName cb
               else io_bind (await_exists env storePath) (\<lambda>found.
                      if found then io_bind (notify (onHit cb) OnHit) (\<lambda>_. io_return (c, storePath))
                      else missBranch env createHash derivationName cb))"

text \<open>The answer of the first existence check, when the function makes one.\<close>

definition firstCheck ::
  "('w, 'loc) env \<Rightarrow> (string \<Rightarrow> string \<Rightarrow> buffer) \<Rightarrow> string \<Rightarrow> string option \<Rightarrow> 'w \<Rightarrow> bool option" where
  "firstCheck env createHash name expectedChecksum w =
     (case expectedChecksum of
        None \<Rightarrow> None
      | Some c \<Rightarrow>
          if c = [] then None
          else Some (fst (existsPromise env (computeFixedOutputStorePath_default createHash name c) w)))"

subsection \<open>The runs of a fetch\<close>

text \<open>
  The outcomes and traces each part can produce, one rule per path through the code.
\<close>

inductive open_run :: "path \<Rightarrow> string \<Rightarrow> error + zipfs \<times> release \<times> string \<Rightarrow> event list \<Rightarrow> bool" where
  libzip_rejects: "open_run sp ck (Inl (Rejected m)) [GetLibzipPromise (Inl m)]"
| zip_rejects: "open_run sp ck (Inl (Rejected m)) [GetLibzipPromise (Inr ()), NewZipFS sp (Inl m)]"
| opened: "open_run sp ck (Inr (ZipFS sp, DiscardAndClose (ZipFS sp), ck))
             [GetLibzipPromise (Inr ()), NewZipFS sp (Inr ())]"

inductive miss_run ::
  "(string \<Rightarrow> string \<Rightarrow> buffer) \<Rightarrow> string \<Rightarrow> error + string \<times> path \<Rightarrow> event list \<Rightarrow> bool"
  for createHash :: "string \<Rightarrow> string \<Rightarrow> buffer" and name :: string where
  loader_rejects: "miss_run createHash name (Inl (Rejected m)) [OnMiss, Loader (Inl m)]"
| checksum_rejects:
    "miss_run createHash name (Inl (Rejected m)) [OnMiss, Loader (Inr rp), ChecksumFile rp (Inl m)]"
| race:
    "sp = computeFixedOutputStorePath_default createHash name (CACHE_KEY_NS @ cs) \<Longrightarrow>
     r = (case u of Inl m \<Rightarrow> Inl (Rejected m) | Inr _ \<Rightarrow> Inr (CACHE_KEY_NS @ cs, sp)) \<Longrightarrow>
     miss_run createHash name r
       [OnMiss, Loader (Inr rp), ChecksumFile rp (Inr cs), ExistsPromise sp True, UnlinkPromise rp u]"
| rename_rejects:
    "sp = computeFixedOutputStorePath_default createHash name (CACHE_KEY_NS @ cs) \<Longrightarrow>
     miss_run createHash name (Inl (Rejected m))
       [OnMiss, Loader (Inr rp), ChecksumFile rp (Inr cs), ExistsPromise sp False,
        RenamePromise rp (ppath_join (ppath_dirname rp) name) (Inl m)]"
| import_rejects:
    "sp = computeFixedOutputStorePath_default createHash name (CACHE_KEY_NS @ cs) \<Longrightarrow>
     args = [''--add-fixed'', ''sha512'', ''./'' @ name] \<Longrightarrow>
     miss_run createHash name (Inl (Rejected m))
       [OnMiss, Loader (Inr rp), ChecksumFile rp (Inr cs), ExistsPromise sp False,
        RenamePromise rp (ppath_join (ppath_dirname rp) name) (Inr ()),
        Execvp ''nix-store'' args (ppath_dirname rp) (Inl m)]"
| mismatch:
    "sp = computeFixedOutputStorePath_default createHash name (CACHE_KEY_NS @ cs) \<Longrightarrow>
     args = [''--add-fixed'', ''sha512'', ''./'' @ name] \<Longrightarrow>
     trim out \<noteq> sp \<Longrightarrow>
     miss_run createHash name (Inl AssertionFailure)
       [OnMiss, Loader (Inr rp), ChecksumFile rp (Inr cs), ExistsPromise sp False,
        RenamePromise rp (ppath_join (ppath_dirname rp) name) (Inr ()),
        Execvp ''nix-store'' args (ppath_dirname rp) (Inr out)]"
| imported:
    "sp = computeFixedOutputStorePath_default createHash name (CACHE_KEY_NS @ cs) \<Longrightarrow>
     args = [''--add-fixed'', ''sha512'', ''./'' @ name] \<Longrightarrow>
     trim out = sp \<Longrightarrow>
     r = (case u of Inl m \<Rightarrow> Inl (Rejected m) | Inr _ \<Rightarrow> Inr (CACHE_KEY_NS @ cs, sp)) \<Longrightarrow>
     miss_run createHash name r
       [OnMiss, Loader (Inr rp), ChecksumFile rp (Inr cs), ExistsPromise sp False,
        RenamePromise rp (ppath_join (ppath_dirname rp) name) (Inr ()),
        Execvp ''nix-store'' args (ppath_dirname rp) (Inr out),
        UnlinkPromise (ppath_join (ppath_dirname rp) name) u]"

inductive resolve_run ::
  "(string \<Rightarrow> string \<Rightarrow> buffer) \<Rightarrow> string \<Rightarrow> string option \<Rightarrow> bool option
   \<Rightarrow> error + string \<times> path \<Rightarrow> event list \<Rightarrow> bool"
  for createHash :: "string \<Rightarrow> string \<Rightarrow> buffer" and name :: string where
  hit:
    "c \<noteq> [] \<Longrightarrow> p = computeFixedOutputStorePath_default createHash name c \<Longrightarrow>
     resolve_run createHash name (Some c) (Some True) (Inr (c, p)) [ExistsPromise p True, OnHit]"
| checked_miss:
    "c \<noteq> [] \<Longrightarrow> p = computeFixedOutputStorePath_default createHash name c \<Longrightarrow>
     miss_run createHash name r evs \<Longrightarrow>
     resolve_run createHash name (Some c) (Some False) r (ExistsPromise p False # evs)"
| unchecked_miss:
    "expectedChecksum = None \<or> expectedChecksum = Some [] \<Longrightarrow>
     miss_run createHash name r evs \<Longrightarrow>
     resolve_run createHash name expectedChecksum None r evs"

inductive fetch_run ::
  "(string \<Rightarrow> string \<Rightarrow> buffer) \<Rightarrow> string \<Rightarrow> string option \<Rightarrow> bool option
   \<Rightarrow> error + zipfs \<times> release \<times> string \<Rightarrow> event list \<Rightarrow> bool"
  for createHash :: "string \<Rightarrow> string \<Rightarrow> buffer" and name :: string where
  unresolved:
    "resolve_run createHash name expectedChecksum chk (Inl e) evs \<Longrightarrow>
     fetch_run createHash name expectedChecksum chk (Inl e) evs"
| resolved:
    "resolve_run createHash name expectedChecksum chk (Inr (ck, sp)) evs \<Longrightarrow>
     open_run sp ck r oevs \<Longrightarrow>
     fetch_run createHash name expectedChecksum chk r (evs @ oevs)"

subsection \<open>Reading a trace\<close>

fun isLoader :: "event \<Rightarrow> bool" where
  "isLoader (Loader r) = True"
| "isLoader e = False"

fun isExecvp :: "event \<Rightarrow> bool" where
  "isExecvp (Execvp cmd args cwd r) = True"
| "isExecvp e = False"

fun isChecksumFile :: "event \<Rightarrow> bool" where
  "isChecksumFile (ChecksumFile p r) = True"
| "isChecksumFile e = False"

text \<open>An external call that was not rejected.\<close>

fun fulfilled :: "string + 'a \<Rightarrow> bool" where
  "fulfilled (Inl m) = False"
| "fulfilled (Inr x) = True"

fun succeeded :: "event \<Rightarrow> bool" where
  "succeeded (Loader r) = fulfilled r"
| "succeeded (ChecksumFile p r) = fulfilled r"
| "succeeded (UnlinkPromise p r) = fulfilled r"
| "succeeded (RenamePromise p q r) = fulfilled r"
| "succeeded (Execvp cmd args cwd r) = fulfilled r"
| "succeeded (GetLibzipPromise r) = fulfilled r"
| "succeeded (NewZipFS p r) = fulfilled r"
| "succeeded e = True"

text \<open>
  The call that follows the checksum of the loaded file: the existence check of the
  re-derived store path, made just before the import.
\<close>

fun afterChecksum :: "event list \<Rightarrow> event option" where
  "afterChecksum [] = None"
| "afterChecksum (ChecksumFile p r # es) = (case es of [] \<Rightarrow> None | e # _ \<Rightarrow> Some e)"
| "afterChecksum (e # es) = afterChecksum es"

subsection \<open>A concrete environment\<close>

text \<open>
  An environment in which every path exists or none does, the loader yields one archive,
  its checksum is \<open>00ff\<close>, the import prints a given output and nothing is rejected.
\<close>

definition demo_env :: "bool \<Rightarrow> string \<Rightarrow> (unit, unit) env" where
  "demo_env found out =
     \<lparr> stringifyLocator = (\<lambda>locator. ''left-pad@npm:1.3.0''),
       existsPromise = (\<lambda>p w. (found, w)),
       checksumFile = (\<lambda>p w. (Inr ''00ff'', w)),
       unlinkPromise = (\<lambda>p w. (Inr (), w)),
       renamePromise = (\<lambda>p q w. (Inr (), w)),
       execvp = (\<lambda>cmd args cwd w. (Inr out, w)),
       getLibzipPromise = (\<lambda>w. (Inr (), w)),
       newZipFS = (\<lambda>p w. (Inr (), w)) \<rparr>"

definition demo_callbacks :: "unit callbacks" where
  "demo_callbacks =
     \<lparr> onHit = (\<lambda>w. w),
       onMiss = (\<lambda>w. w),
       loader = (\<lambda>w. (Inr ''/tmp/xfs-1/archive.zip'', w)) \<rparr>"

section \<open>The store path scheme as the specification words it\<close>

text \<open>
  These definitions follow the prose of the specification, not the code; the code is
  compared with them below.

  Hash compression: output position \<open>j\<close> accumulates by exclusive or every input byte
  whose index is \<open>j\<close> modulo the size.
\<close>

definition xorAt :: "buffer \<Rightarrow> nat \<Rightarrow> nat \<Rightarrow> nat \<Rightarrow> byte" where
  "xorAt digest sz n j = foldl (XOR) 0 (map (\<lambda>i. digest ! i) (filter (\<lambda>i. i mod sz = j) [0..<n]))"

definition spec_compressHash :: "buffer \<Rightarrow> nat \<Rightarrow> buffer" where
  "spec_compressHash digest sz = map (xorAt digest sz (length digest)) [0..<sz]"

text \<open>
  Base 32: the buffer is one bit string that starts at the last byte's most significant
  bit; one character of the alphabet is emitted per group of five bits, and a final group
  that runs out of input is padded with zero bits.
\<close>

definition spec_bitString :: "buffer \<Rightarrow> bool list" where
  "spec_bitString buf = concat (map (\<lambda>b. map (bit b) [7, 6, 5, 4, 3, 2, 1, 0]) (rev buf))"

definition spec_groupValue :: "bool list \<Rightarrow> nat" where
  "spec_groupValue g = bitsValue (g @ replicate (5 - length g) False)"

definition spec_encodeBase32 :: "buffer \<Rightarrow> string" where
  "spec_encodeBase32 buf = map (\<lambda>g. BASE32_CHARSET ! spec_groupValue g) (groupsOf5 (spec_bitString buf))"

text \<open>The checksum with a leading namespace prefix removed if present.\<close>

definition spec_strippedChecksum :: "string \<Rightarrow> string" where
  "spec_strippedChecksum checksum = (if prefix ''nix.1/'' checksum then drop 6 checksum else checksum)"

text \<open>The two-stage digest, compressed to 20 bytes, encoded, and joined to the store root.\<close>

definition spec_storePath :: "(string \<Rightarrow> buffer) \<Rightarrow> string \<Rightarrow> string \<Rightarrow> string \<Rightarrow> path \<Rightarrow> path" where
  "spec_storePath sha256 name checksum hashAlgorithm storeRoot =
     ppath_join storeRoot
       (spec_encodeBase32
          (spec_compressHash
             (sha256 (''output:out:sha256:''
                      @ toString_hex (sha256 (''fixed:out:'' @ hashAlgorithm @ '':''
                                              @ spec_strippedChecksum checksum @ '':''))
                      @ '':'' @ storeRoot @ '':'' @ name))
             20)
        @ ''-'' @ name)"

section \<open>Properties\<close>

lemma toString2_small: "n < 2 \<Longrightarrow> toString2 n = [bitChar (odd n)]"
  by (cases "n = 0") (auto simp: toString2.simps bitChar_def)

lemma toString2_big: "\<not> n < 2 \<Longrightarrow> toString2 n = toString2 (n div 2) @ [bitChar (odd n)]"
  by (subst toString2.simps) (auto simp: bitChar_def)

lemma padStart_toString2:
  "n < 2 ^ Suc k \<Longrightarrow>
   padStart (toString2 n) (Suc k) (CHR ''0'') = map (\<lambda>i. bitChar (bit n i)) (rev [0..<Suc k])"
proof (induction k arbitrary: n)
  case 0
  then have "n < 2" by simp
  then show ?case by (simp add: toString2_small padStart_def bit_0)
next
  case (Suc k)
  have half: "n div 2 < 2 ^ Suc k" using Suc.prems by auto
  have rhs: "map (\<lambda>i. bitChar (bit n i)) (rev [0..<Suc (Suc k)])
           = map (\<lambda>i. bitChar (bit (n div 2) i)) (rev [0..<Suc k]) @ [bitChar (odd n)]"
  proof -
    have "[0..<Suc (Suc k)] = 0 # map Suc [0..<Suc k]"
      by (metis map_Suc_upt upt_conv_Cons zero_less_Suc)
    then show ?thesis
      by (simp add: rev_map bit_Suc bit_0 comp_def del: upt_Suc)
  qed
  show ?case
  proof (cases "n < 2")
    case True
    then have z: "n div 2 = 0" by simp
    have "map (\<lambda>i. bitChar (bit (0::nat) i)) (rev [0..<Suc k]) = replicate (Suc k) (CHR ''0'')"
      by (simp add: bitChar_def map_replicate_const del: upt_Suc)
    with True z show ?thesis
      unfolding rhs by (simp add: toString2_small padStart_def del: upt_Suc)
  next
    case False
    have "padStart (toString2 n) (Suc (Suc k)) (CHR ''0'')
        = padStart (toString2 (n div 2)) (Suc k) (CHR ''0'') @ [bitChar (odd n)]"
      using False by (simp add: toString2_big padStart_def)
    then show ?thesis
      unfolding rhs using Suc.IH [OF half] by simp
  qed
qed

lemma byteBits_bits: "byteBits b = map (\<lambda>i. bitChar (bit b i)) (rev [0..<8])"
proof -
  have "unat b < 2 ^ LENGTH(8)" by (rule unsigned_less)
  then have "unat b < 2 ^ Suc 7" by simp
  from padStart_toString2 [OF this] show ?thesis
    by (simp add: byteBits_def bit_unsigned_iff numeral_eq_Suc del: upt_Suc)
qed

lemma bitsValue_snoc: "bitsValue (bs @ [b]) = 2 * bitsValue bs + (if b then 1 else 0)"
  by (simp add: bitsValue_def)

lemma bitsValue_less: "bitsValue bs < 2 ^ length bs"
proof (induction bs rule: rev_induct)
  case Nil
  show ?case by (simp add: bitsValue_def)
next
  case (snoc b bs)
  then show ?case by (simp add: bitsValue_snoc)
qed

lemma takeWhile_bitChar: "takeWhile isBinaryDigit (map bitChar bs) = map bitChar bs"
  by (induction bs) (auto simp: isBinaryDigit_def bitChar_def)

lemma foldl_bitChar:
  "foldl (\<lambda>acc c. 2 * acc + (if c = CHR ''1'' then 1 else 0)) a (map bitChar bs)
   = foldl (\<lambda>acc b. 2 * acc + (if b then 1 else 0)) (a::nat) bs"
  by (induction bs arbitrary: a) (auto simp: bitChar_def)

lemma parseInt2_bits: "bs \<noteq> [] \<Longrightarrow> parseInt2 (map bitChar bs) = Some (bitsValue bs)"
  by (simp add: parseInt2_def takeWhile_bitChar foldl_bitChar bitsValue_def)

lemma bitsValue_take5: "bitsValue (take 5 bs) < 32"
proof -
  have "bitsValue (take 5 bs) < 2 ^ length (take 5 bs)" by (rule bitsValue_less)
  also have "\<dots> \<le> (2::nat) ^ 5" by (rule power_increasing) auto
  finally show ?thesis by simp
qed

lemma length_BASE32_CHARSET: "length BASE32_CHARSET = 32"
  by (simp add: BASE32_CHARSET_def)

lemma encodeBase32_loop_groups:
  "encodeBase32_loop (map bitChar bs) result
   = result @ map (\<lambda>g. BASE32_CHARSET ! bitsValue g) (groupsOf5 bs)"
proof (induction bs arbitrary: result rule: groupsOf5.induct)
  case (1 bs)
  show ?case
  proof (cases "bs = []")
    case True
    then show ?thesis by (simp add: encodeBase32_loop.simps groupsOf5.simps)
  next
    case False
    have step: "appendCharAt result BASE32_CHARSET (parseInt2 (slice_to (map bitChar bs) 5))
              = result @ [BASE32_CHARSET ! bitsValue (take 5 bs)]"
      using False bitsValue_take5 [of bs]
      by (simp add: slice_to_def take_map parseInt2_bits appendCharAt_def
            length_BASE32_CHARSET)
    have "encodeBase32_loop (map bitChar bs) result
        = encodeBase32_loop (map bitChar (drop 5 bs)) (result @ [BASE32_CHARSET ! bitsValue (take 5 bs)])"
      using False by (subst encodeBase32_loop.simps) (simp add: step slice_from_def drop_map)
    also have "\<dots> = (result @ [BASE32_CHARSET ! bitsValue (take 5 bs)])
                   @ map (\<lambda>g. BASE32_CHARSET ! bitsValue g) (groupsOf5 (drop 5 bs))"
      using False by (rule "1.IH")
    also have "\<dots> = result @ map (\<lambda>g. BASE32_CHARSET ! bitsValue g) (groupsOf5 bs)"
      using False by (subst (2) groupsOf5.simps) simp
    finally show ?thesis .
  qed
qed

lemma length_groupsOf5: "length (groupsOf5 xs) = (length xs + 4) div 5"
proof (induction xs rule: groupsOf5.induct)
  case (1 xs)
  show ?case
  proof (cases "xs = []")
    case True
    then show ?thesis by (simp add: groupsOf5.simps)
  next
    case False
    then have pos: "Suc 0 \<le> length xs" by (cases xs) simp_all
    have "length (groupsOf5 xs) = Suc (length (groupsOf5 (drop 5 xs)))"
      using False by (subst groupsOf5.simps) simp
    also have "\<dots> = Suc ((length xs - 5 + 4) div 5)"
      using "1.IH" [OF False] by simp
    also have "\<dots> = (length xs + 4) div 5"
    proof (cases "5 \<le> length xs")
      case True
      then have "length xs + 4 = (length xs - 5 + 4) + 5" by simp
      then have "(length xs + 4) div 5 = (length xs - 5 + 4) div 5 + 1"
        by simp
      then show ?thesis by simp
    next
      case False
      with pos have "length xs - 5 + 4 = 4" "5 \<le> length xs + 4" "length xs + 4 < 10"
        by simp_all
      then have "(length xs - 5 + 4) div 5 = 0" "(length xs + 4) div 5 = 1"
        by (simp_all add: div_nat_eqI)
      then show ?thesis by simp
    qed
    finally show ?thesis .
  qed
qed

lemma groupsOf5_take: "g \<in> set (groupsOf5 xs) \<Longrightarrow> length g \<le> 5"
proof (induction xs rule: groupsOf5.induct)
  case (1 xs)
  then show ?case
    by (cases "xs = []") (auto simp: groupsOf5.simps [of xs] groupsOf5.simps [of "[]"])
qed

lemma bufferBits_bools: "bufferBits buf = map bitChar (bufferBools buf)"
proof -
  have "byteBits = (\<lambda>b. map bitChar (map (bit b) (rev [0..<8])))"
    by (rule ext) (simp only: byteBits_bits map_map comp_def)
  then show ?thesis
    by (simp only: bufferBits_def bufferBools_def map_concat map_map comp_def)
qed

lemma length_bufferBools: "length (bufferBools buf) = 8 * length buf"
  by (induction buf) (simp_all add: bufferBools_def)

lemma encodeBase32_groups:
  "encodeBase32 buf = map (\<lambda>g. BASE32_CHARSET ! bitsValue g) (groupsOf5 (bufferBools buf))"
  by (simp add: encodeBase32_def bufferBits_bools encodeBase32_loop_groups)

lemma length_encodeBase32: "length (encodeBase32 buf) = (8 * length buf + 4) div 5"
  by (simp add: encodeBase32_groups length_groupsOf5 length_bufferBools)

lemma groupValue_less: "g \<in> set (groupsOf5 xs) \<Longrightarrow> bitsValue g < 32"
proof -
  assume "g \<in> set (groupsOf5 xs)"
  then have "length g \<le> 5" by (rule groupsOf5_take)
  have "bitsValue g < 2 ^ length g" by (rule bitsValue_less)
  also have "\<dots> \<le> (2::nat) ^ 5" using \<open>length g \<le> 5\<close> by (rule power_increasing) simp
  finally show ?thesis by simp
qed

lemma set_encodeBase32: "set (encodeBase32 buf) \<subseteq> set BASE32_CHARSET"
  using groupValue_less by (auto simp: encodeBase32_groups length_BASE32_CHARSET)

lemma ceiling_fifth: "nat \<lceil>real m / 5\<rceil> = (m + 4) div 5"
proof -
  have "\<lceil>real m / 5\<rceil> = \<lceil>of_int (int m) / (of_int 5 :: real)\<rceil>" by simp
  also have "\<dots> = - (- int m div 5)" by (rule ceiling_divide_eq_div)
  finally have "\<lceil>real m / 5\<rceil> = - (- int m div 5)" .
  moreover have "- (- int m div 5) = int ((m + 4) div 5)" by (simp add: zdiv_int)
  then have "nat (- (- int m div 5)) = (m + 4) div 5" by simp
  ultimately show ?thesis by simp
qed

text \<open>
  Claim C5.  For every buffer, \<open>encodeBase32\<close> returns a string whose length is the ceiling
  of eight times the byte length over five, all of whose characters belong to the
  32-character alphabet; a 20-byte buffer yields exactly 32 characters.
\<close>

theorem encodeBase32_length_charset:
  "length (encodeBase32 buf) = nat \<lceil>real (8 * length buf) / 5\<rceil>
   \<and> set (encodeBase32 buf) \<subseteq> set ''0123456789abcdfghijklmnpqrsvwxyz''
   \<and> (length buf = 20 \<longrightarrow> length (encodeBase32 buf) = 32)"
proof -
  have "length (encodeBase32 buf) = nat \<lceil>real (8 * length buf) / 5\<rceil>"
    by (simp only: ceiling_fifth length_encodeBase32)
  moreover have "set (encodeBase32 buf) \<subseteq> set ''0123456789abcdfghijklmnpqrsvwxyz''"
    using set_encodeBase32 [of buf] by (simp only: BASE32_CHARSET_def)
  moreover have "length buf = 20 \<longrightarrow> length (encodeBase32 buf) = 32"
    by (simp add: length_encodeBase32)
  ultimately show ?thesis by blast
qed

text \<open>The 20-byte case of C5 at the all-zero buffer.\<close>

theorem encodeBase32_length_charset_witness:
  "length (replicate 20 (0::byte)) = 20 \<and> length (encodeBase32 (replicate 20 (0::byte))) = 32"
  using encodeBase32_length_charset [of "replicate 20 (0::byte)"] by simp

lemma nameChar_dash: "nameChar (CHR ''-'')"
  by (simp add: nameChar_def)

lemma replaceInvalidRuns_valid: "list_all nameChar (replaceInvalidRuns s)"
  by (induction s rule: replaceInvalidRuns.induct) (simp_all add: nameChar_dash)

lemma replaceInvalidRuns_id: "list_all nameChar s \<Longrightarrow> replaceInvalidRuns s = s"
  by (induction s) simp_all

lemma replaceInvalidRuns_Nil: "replaceInvalidRuns s = [] \<longleftrightarrow> s = []"
  by (cases s) simp_all

lemma hd_replaceInvalidRuns:
  "s \<noteq> [] \<Longrightarrow> hd s \<noteq> CHR ''.'' \<Longrightarrow> hd (replaceInvalidRuns s) \<noteq> CHR ''.''"
  by (cases s) simp_all

lemma stripLeadingDots_hd: "stripLeadingDots s \<noteq> [] \<Longrightarrow> hd (stripLeadingDots s) \<noteq> CHR ''.''"
  unfolding stripLeadingDots_def using hd_dropWhile [of "\<lambda>c. c = CHR ''.''" s] by simp

lemma stripLeadingDots_id: "s \<noteq> [] \<Longrightarrow> hd s \<noteq> CHR ''.'' \<Longrightarrow> stripLeadingDots s = s"
  by (cases s) (simp_all add: stripLeadingDots_def)

lemma sanitize_pipeline:
  "sanitizeDerivationName name = (if sanitizePipeline name = [] then ''unknown'' else sanitizePipeline name)"
  by (simp add: sanitizeDerivationName_def sanitizePipeline_def Let_def)

lemma pipeline_valid: "list_all nameChar (sanitizePipeline name)"
  using replaceInvalidRuns_valid [of "stripLeadingDots name"]
  by (auto simp: sanitizePipeline_def slice_to_def list_all_iff dest: in_set_takeD)

lemma pipeline_length: "length (sanitizePipeline name) \<le> 207"
  by (simp add: sanitizePipeline_def slice_to_def)

lemma pipeline_hd: "sanitizePipeline name \<noteq> [] \<Longrightarrow> hd (sanitizePipeline name) \<noteq> CHR ''.''"
proof -
  assume ne: "sanitizePipeline name \<noteq> []"
  then have r: "replaceInvalidRuns (stripLeadingDots name) \<noteq> []"
    by (auto simp: sanitizePipeline_def slice_to_def)
  then have s: "stripLeadingDots name \<noteq> []" by (simp add: replaceInvalidRuns_Nil)
  have "hd (replaceInvalidRuns (stripLeadingDots name)) \<noteq> CHR ''.''"
    using s by (intro hd_replaceInvalidRuns stripLeadingDots_hd)
  moreover have "hd (sanitizePipeline name) = hd (replaceInvalidRuns (stripLeadingDots name))"
    using r by (simp add: sanitizePipeline_def slice_to_def hd_take)
  ultimately show ?thesis by simp
qed

lemma unknown_valid: "list_all nameChar ''unknown''"
  by (simp add: nameChar_def)

lemma sanitize_fixpoint:
  assumes "s \<noteq> []" "length s \<le> 207" "list_all nameChar s" "hd s \<noteq> CHR ''.''"
  shows "sanitizeDerivationName s = s"
  using assms
  by (simp add: sanitizeDerivationName_def stripLeadingDots_id replaceInvalidRuns_id slice_to_def)

lemma sanitize_props:
  "sanitizeDerivationName name \<noteq> [] \<and> length (sanitizeDerivationName name) \<le> 207
   \<and> list_all nameChar (sanitizeDerivationName name)
   \<and> hd (sanitizeDerivationName name) \<noteq> CHR ''.''"
  using pipeline_valid [of name] pipeline_length [of name] pipeline_hd [of name] unknown_valid
  by (simp add: sanitize_pipeline)

text \<open>
  Claim C7.  For every input string, \<open>sanitizeDerivationName\<close> returns a non-empty string of
  at most 207 characters, all from \<open>[A-Za-z0-9+._?=-]\<close>, that does not begin with a dot;
  when the pipeline before the placeholder yields the empty string, the result is
  \<open>unknown\<close>.
\<close>

theorem sanitizeDerivationName_valid:
  "sanitizeDerivationName x \<noteq> []
   \<and> length (sanitizeDerivationName x) \<le> 207
   \<and> set (sanitizeDerivationName x)
       \<subseteq> set ''ABCDEFGHIJKLMNOPQRSTUVWXYZabcdefghijklmnopqrstuvwxyz0123456789+._?=-''
   \<and> hd (sanitizeDerivationName x) \<noteq> CHR ''.''
   \<and> (slice_to (replaceInvalidRuns (stripLeadingDots x)) 207 = []
        \<longrightarrow> sanitizeDerivationName x = ''unknown'')"
proof -
  have chars: "set (sanitizeDerivationName x)
       \<subseteq> set ''ABCDEFGHIJKLMNOPQRSTUVWXYZabcdefghijklmnopqrstuvwxyz0123456789+._?=-''"
  proof
    fix c
    assume "c \<in> set (sanitizeDerivationName x)"
    with sanitize_props [of x] have "nameChar c" by (simp add: list_all_iff)
    then show "c \<in> set ''ABCDEFGHIJKLMNOPQRSTUVWXYZabcdefghijklmnopqrstuvwxyz0123456789+._?=-''"
      unfolding nameChar_def by auto
  qed
  have placeholder: "slice_to (replaceInvalidRuns (stripLeadingDots x)) 207 = []
        \<longrightarrow> sanitizeDerivationName x = ''unknown''"
    by (simp add: sanitizeDerivationName_def)
  from sanitize_props [of x] chars placeholder show ?thesis by blast
qed

text \<open>The placeholder case of C7 at a name made of dots only.\<close>

theorem sanitizeDerivationName_valid_witness:
  "slice_to (replaceInvalidRuns (stripLeadingDots ''...'')) 207 = []
   \<and> sanitizeDerivationName ''...'' = ''unknown''"
  using sanitizeDerivationName_valid [of "''...''"]
  by (simp add: stripLeadingDots_def slice_to_def)

text \<open>
  Claim C8.  Sanitising is idempotent: applying \<open>sanitizeDerivationName\<close> to its own
  result changes nothing.
\<close>

theorem sanitize_idem: "sanitizeDerivationName (sanitizeDerivationName x) = sanitizeDerivationName x"
  using sanitize_props [of x] by (intro sanitize_fixpoint) simp_all

lemma xorAt_Suc:
  "xorAt digest sz (Suc n) j = (if n mod sz = j then xorAt digest sz n j XOR digest ! n else xorAt digest sz n j)"
  by (simp add: xorAt_def)

lemma compressHash_loop_inv:
  "idx \<le> length hash \<Longrightarrow> result = map (xorAt hash sz idx) [0..<sz] \<Longrightarrow>
   compressHash_loop hash sz idx result = map (xorAt hash sz (length hash)) [0..<sz]"
proof (induction hash sz idx result rule: compressHash_loop.induct)
  case (1 hash sz idx result)
  show ?case
  proof (cases "idx < length hash")
    case False
    with "1.prems" show ?thesis by (simp add: compressHash_loop.simps)
  next
    case True
    let ?r = "if sz = 0 then result else result[idx mod sz := (result ! (idx mod sz)) XOR (hash ! idx)]"
    have next_inv: "?r = map (xorAt hash sz (idx + 1)) [0..<sz]"
    proof (cases "sz = 0")
      case True
      with "1.prems" show ?thesis by simp
    next
      case False
      then have m: "idx mod sz < sz" by simp
      show ?thesis
        using False m "1.prems"(2)
        by (auto simp: list_eq_iff_nth_eq nth_list_update xorAt_Suc)
    qed
    have "compressHash_loop hash sz idx result = compressHash_loop hash sz (idx + 1) ?r"
      using True by (subst compressHash_loop.simps) simp
    also have "\<dots> = map (xorAt hash sz (length hash)) [0..<sz]"
      using True next_inv by (intro "1.IH") simp_all
    finally show ?thesis .
  qed
qed

lemma compressHash_spec: "compressHash hash sz = spec_compressHash hash sz"
proof -
  have "replicate sz (0::byte) = map (xorAt hash sz 0) [0..<sz]"
    by (simp add: xorAt_def list_eq_iff_nth_eq)
  then show ?thesis
    unfolding compressHash_def spec_compressHash_def
    by (intro compressHash_loop_inv) simp_all
qed

lemma length_compressHash: "length (compressHash hash sz) = sz"
  by (simp add: compressHash_spec spec_compressHash_def)

lemma bufferBools_spec: "bufferBools buf = spec_bitString buf"
proof -
  have "rev [0..<8] = [7, 6, 5, 4, 3, 2, 1, 0::nat]"
    by code_simp
  then show ?thesis by (simp only: bufferBools_def spec_bitString_def)
qed

lemma groupsOf5_full:
  "length xs mod 5 = 0 \<Longrightarrow> g \<in> set (groupsOf5 xs) \<Longrightarrow> length g = 5"
proof (induction xs rule: groupsOf5.induct)
  case (1 xs)
  show ?case
  proof (cases "xs = []")
    case True
    with "1.prems" show ?thesis by (simp add: groupsOf5.simps [of "[]"])
  next
    case False
    then have "length xs \<noteq> 0" by simp
    with "1.prems"(1) have five: "5 \<le> length xs" by (metis mod_less not_le_imp_less)
    then have rest: "length (drop 5 xs) mod 5 = 0"
      using "1.prems"(1) by (simp add: le_mod_geq)
    from "1.prems"(2) False have "g = take 5 xs \<or> g \<in> set (groupsOf5 (drop 5 xs))"
      by (subst (asm) groupsOf5.simps) simp
    then show ?thesis
      using five "1.IH" [OF False rest] by auto
  qed
qed

lemma spec_groupValue_full: "length g = 5 \<Longrightarrow> spec_groupValue g = bitsValue g"
  by (simp add: spec_groupValue_def)

lemma encodeBase32_spec:
  assumes "(8 * length buf) mod 5 = 0"
  shows "encodeBase32 buf = spec_encodeBase32 buf"
proof -
  have "length (spec_bitString buf) mod 5 = 0"
    using assms by (simp add: bufferBools_spec [symmetric] length_bufferBools)
  then have "\<And>g. g \<in> set (groupsOf5 (spec_bitString buf)) \<Longrightarrow> spec_groupValue g = bitsValue g"
    by (intro spec_groupValue_full groupsOf5_full)
  then show ?thesis
    by (simp add: encodeBase32_groups bufferBools_spec spec_encodeBase32_def)
qed

lemma length_CACHE_KEY_NS: "length CACHE_KEY_NS = 6"
  by (simp add: CACHE_KEY_NS_def)

lemma startsWith_prefix: "startsWith s p \<longleftrightarrow> prefix p s"
proof
  assume "startsWith s p"
  then have "s = p @ drop (length p) s"
    unfolding startsWith_def by (metis append_take_drop_id)
  then show "prefix p s" by (metis prefixI)
next
  assume "prefix p s"
  then show "startsWith s p" by (auto simp: startsWith_def prefix_def)
qed

lemma strip_spec:
  "(if startsWith hash CACHE_KEY_NS then slice_from hash (length CACHE_KEY_NS) else hash)
   = spec_strippedChecksum hash"
  unfolding startsWith_prefix length_CACHE_KEY_NS slice_from_def spec_strippedChecksum_def
  by (simp only: CACHE_KEY_NS_def)

text \<open>
  Claim C1.  For every name, checksum, hash algorithm and store root,
  \<open>computeFixedOutputStorePath\<close> returns the path the specification describes: the store
  root joined with the base-32 encoding of the 20-byte compression of the outer SHA-256
  digest, a dash and the name, the inner digest being taken over the checksum without its
  namespace prefix.  The compressed digest has 160 bits, so no group of the encoding is
  short and the result does not depend on how a short group would be padded.
\<close>

theorem computeFixedOutputStorePath_spec:
  "computeFixedOutputStorePath createHash name checksum hashAlgorithm storeRoot
   = spec_storePath (createHash ''sha256'') name checksum hashAlgorithm storeRoot"
proof -
  have enc: "encodeBase32 (compressHash h 20) = spec_encodeBase32 (spec_compressHash h 20)" for h
  proof -
    have "(8 * length (compressHash h 20)) mod 5 = 0" by (simp add: length_compressHash)
    then have "encodeBase32 (compressHash h 20) = spec_encodeBase32 (compressHash h 20)"
      by (rule encodeBase32_spec)
    then show ?thesis by (simp only: compressHash_spec)
  qed
  show ?thesis
    unfolding computeFixedOutputStorePath_def spec_storePath_def Let_def computeHash_def
    by (simp only: enc strip_spec)
qed

lemma hex_not_prefixed: "isHexDigest h \<Longrightarrow> \<not> startsWith h CACHE_KEY_NS"
proof
  assume hex: "isHexDigest h" and "startsWith h CACHE_KEY_NS"
  then have "prefix CACHE_KEY_NS h" by (simp only: startsWith_prefix)
  then obtain zs where "h = CACHE_KEY_NS @ zs" by (auto simp: prefix_def)
  then have "CHR ''n'' \<in> set h" by (simp add: CACHE_KEY_NS_def)
  moreover have "CHR ''n'' \<notin> set ''0123456789abcdefABCDEF''" by simp
  ultimately show False using hex by (auto simp only: isHexDigest_def list_all_iff)
qed

lemma prefixed_strip:
  assumes "\<not> startsWith h CACHE_KEY_NS"
  shows "computeFixedOutputStorePath createHash name (CACHE_KEY_NS @ h) alg storeRoot
       = computeFixedOutputStorePath createHash name h alg storeRoot"
proof -
  have a: "(if startsWith (CACHE_KEY_NS @ h) CACHE_KEY_NS
            then slice_from (CACHE_KEY_NS @ h) (length CACHE_KEY_NS) else CACHE_KEY_NS @ h) = h"
    by (simp add: startsWith_def slice_from_def)
  have b: "(if startsWith h CACHE_KEY_NS then slice_from h (length CACHE_KEY_NS) else h) = h"
    using assms by simp
  show ?thesis
    unfolding computeFixedOutputStorePath_def by (simp only: a b)
qed

text \<open>
  Claim C4.  For a hexadecimal digest \<open>h\<close>, the checksum \<open>nix.1/h\<close> and the bare
  checksum \<open>h\<close> give the same store path.
\<close>

theorem namespace_prefix_ignored:
  "isHexDigest h \<Longrightarrow>
   computeFixedOutputStorePath createHash name (''nix.1/'' @ h) alg storeRoot
   = computeFixedOutputStorePath createHash name h alg storeRoot"
  using prefixed_strip [OF hex_not_prefixed, of h createHash name alg storeRoot]
  by (simp only: CACHE_KEY_NS_def)

text \<open>The hypothesis of C4 at the digest \<open>00ff\<close>.\<close>

theorem namespace_prefix_ignored_witness:
  "isHexDigest ''00ff''
   \<and> (\<forall>createHash.
         computeFixedOutputStorePath createHash ''a.zip'' (''nix.1/'' @ ''00ff'') ''sha512'' ''/nix/store''
         = computeFixedOutputStorePath createHash ''a.zip'' ''00ff'' ''sha512'' ''/nix/store'')"
proof -
  have h: "isHexDigest ''00ff''" by (simp add: isHexDigest_def)
  show ?thesis using h namespace_prefix_ignored [OF h] by blast
qed

lemma split_sep_nonempty: "split_sep s \<noteq> []"
  by (induction s) (auto split: list.splits)

lemma split_sep_no_slash: "CHR ''/'' \<notin> set s \<Longrightarrow> split_sep s = [s]"
  by (induction s) auto

lemma split_sep_append: "split_sep (a @ CHR ''/'' # b) = split_sep a @ split_sep b"
proof (induction a)
  case Nil
  show ?case by simp
next
  case (Cons c a)
  obtain s ss where sp: "split_sep a = s # ss"
    using split_sep_nonempty [of a] by (cases "split_sep a") auto
  show ?case using Cons sp by simp
qed

lemma normalizeSegments_append:
  "normalizeSegments allow (xs @ ys) res = normalizeSegments allow ys (normalizeSegments allow xs res)"
  by (induction allow xs res rule: normalizeSegments.induct) auto

lemma join_sep_snoc:
  "join_sep (st @ [seg]) = (if st = [] then seg else join_sep st @ CHR ''/'' # seg)"
  by (induction st rule: join_sep.induct) simp_all

lemma basename_no_slash: "CHR ''/'' \<notin> set seg \<Longrightarrow> basename seg = seg"
proof -
  assume "CHR ''/'' \<notin> set seg"
  then have "takeWhile (\<lambda>c. c \<noteq> CHR ''/'') (rev seg) = rev seg"
    by (intro takeWhile_eq_all_conv [THEN iffD2]) auto
  then show ?thesis unfolding basename_def by (simp only: rev_rev_ident)
qed

lemma basename_after_slash: "CHR ''/'' \<notin> set seg \<Longrightarrow> basename (x @ CHR ''/'' # seg) = seg"
proof -
  assume "CHR ''/'' \<notin> set seg"
  then have "takeWhile (\<lambda>c. c \<noteq> CHR ''/'') (rev seg @ CHR ''/'' # rev x) = rev seg"
    by (subst takeWhile_append2) auto
  then show ?thesis by (simp add: basename_def)
qed

lemma normalize_last_segment:
  assumes seg: "plainSegment seg" and p: "p = seg \<or> (\<exists>a. p = a @ CHR ''/'' # seg)"
  shows "basename (ppath_normalize p) = seg"
proof -
  from seg have ns: "CHR ''/'' \<notin> set seg" and ne: "seg \<noteq> []" and nd: "seg \<noteq> ''.''" "seg \<noteq> ''..''"
    by (simp_all add: plainSegment_def)
  from p obtain xs where sp: "split_sep p = xs @ [seg]"
    using split_sep_no_slash [OF ns] split_sep_append by fastforce
  from p ne have pne: "p \<noteq> []" by auto
  from p ne have "last p = last seg" by auto
  with ns ne have trail: "last p \<noteq> CHR ''/''" by (metis last_in_set)
  define st where "st = normalizeSegments (hd p \<noteq> CHR ''/'') xs []"
  have q: "normalizeString p (hd p \<noteq> CHR ''/'') = join_sep (st @ [seg])"
    using ne nd by (simp add: normalizeString_def sp normalizeSegments_append st_def)
  then have qne: "normalizeString p (hd p \<noteq> CHR ''/'') \<noteq> []"
    using ne by (simp add: join_sep_snoc)
  have "ppath_normalize p = (if hd p = CHR ''/'' then CHR ''/'' # join_sep (st @ [seg]) else join_sep (st @ [seg]))"
    using pne trail qne q by (simp add: ppath_normalize_def Let_def)
  then show ?thesis
    using ns basename_after_slash [OF ns, of "[]"] basename_after_slash [OF ns, of "join_sep st"]
      basename_after_slash [OF ns, of "CHR ''/'' # join_sep st"] basename_no_slash [OF ns]
    by (simp add: join_sep_snoc)
qed

lemma ppath_join_basename:
  assumes "plainSegment seg"
  shows "basename (ppath_join a seg) = seg"
proof -
  from assms have ne: "seg \<noteq> []" by (simp add: plainSegment_def)
  show ?thesis
  proof (cases "a = []")
    case True
    then show ?thesis using ne normalize_last_segment [OF assms, of seg] by (simp add: ppath_join_def)
  next
    case False
    then show ?thesis
      using ne normalize_last_segment [OF assms, of "a @ CHR ''/'' # seg"] by (simp add: ppath_join_def)
  qed
qed

lemma slash_not_base32: "CHR ''/'' \<notin> set BASE32_CHARSET"
  by (simp add: BASE32_CHARSET_def)

lemma long_not_dots: "33 \<le> length s \<Longrightarrow> s \<noteq> [] \<and> s \<noteq> ''.'' \<and> s \<noteq> ''..''"
  by auto

lemma storeName_plain:
  assumes "CHR ''/'' \<notin> set name"
  shows "plainSegment (encodeBase32 (compressHash h 20) @ ''-'' @ name)"
proof -
  let ?id = "encodeBase32 (compressHash h 20)"
  have len: "length ?id = 32" by (simp add: length_encodeBase32 length_compressHash)
  have "CHR ''/'' \<notin> set ?id" using set_encodeBase32 [of "compressHash h 20"] slash_not_base32 by blast
  moreover have "length (?id @ ''-'' @ name) \<ge> 33" using len by simp
  then have "?id @ ''-'' @ name \<noteq> [] \<and> ?id @ ''-'' @ name \<noteq> ''.'' \<and> ?id @ ''-'' @ name \<noteq> ''..''"
    by (rule long_not_dots)
  ultimately show ?thesis using assms by (simp add: plainSegment_def)
qed

text \<open>
  The name can be read off the store path as long as it has no slash: the last segment
  of the path is the 32-character identifier, a dash and the name.
\<close>

lemma slash_free_distinct_paths:
  assumes "n1 \<noteq> n2" and "CHR ''/'' \<notin> set n1" and "CHR ''/'' \<notin> set n2"
  shows "computeFixedOutputStorePath createHash n1 checksum alg storeRoot
       \<noteq> computeFixedOutputStorePath createHash n2 checksum alg storeRoot"
proof
  assume eq: "computeFixedOutputStorePath createHash n1 checksum alg storeRoot
            = computeFixedOutputStorePath createHash n2 checksum alg storeRoot"
  obtain h1 where p1: "computeFixedOutputStorePath createHash n1 checksum alg storeRoot
             = ppath_join storeRoot (encodeBase32 (compressHash h1 20) @ ''-'' @ n1)"
    by (simp add: computeFixedOutputStorePath_def Let_def)
  obtain h2 where p2: "computeFixedOutputStorePath createHash n2 checksum alg storeRoot
             = ppath_join storeRoot (encodeBase32 (compressHash h2 20) @ ''-'' @ n2)"
    by (simp add: computeFixedOutputStorePath_def Let_def)
  have "basename (ppath_join storeRoot (encodeBase32 (compressHash h1 20) @ ''-'' @ n1))
      = basename (ppath_join storeRoot (encodeBase32 (compressHash h2 20) @ ''-'' @ n2))"
    using eq p1 p2 by simp
  then have "encodeBase32 (compressHash h1 20) @ ''-'' @ n1 = encodeBase32 (compressHash h2 20) @ ''-'' @ n2"
    by (simp only: ppath_join_basename [OF storeName_plain [OF assms(2)]]
          ppath_join_basename [OF storeName_plain [OF assms(3)]])
  moreover have "length (encodeBase32 (compressHash h1 20)) = length (encodeBase32 (compressHash h2 20))"
    by (simp add: length_encodeBase32 length_compressHash)
  ultimately have "n1 = n2" by simp
  with assms(1) show False by simp
qed

lemma sanitized_no_slash: "CHR ''/'' \<notin> set (sanitizeDerivationName x)"
proof
  assume "CHR ''/'' \<in> set (sanitizeDerivationName x)"
  with sanitize_props [of x] have "nameChar (CHR ''/'')" by (simp add: list_all_iff)
  then show False by (simp add: nameChar_def)
qed

text \<open>
  Claim C6.  For every checksum, hash algorithm and store root, two distinct derivation
  names (the names \<open>sanitizeDerivationName\<close> produces) yield distinct store paths.
\<close>

theorem distinct_names_distinct_paths:
  assumes "n1 = sanitizeDerivationName x1" and "n2 = sanitizeDerivationName x2" and "n1 \<noteq> n2"
  shows "computeFixedOutputStorePath createHash n1 checksum alg storeRoot
       \<noteq> computeFixedOutputStorePath createHash n2 checksum alg storeRoot"
proof -
  have "CHR ''/'' \<notin> set n1" and "CHR ''/'' \<notin> set n2"
    unfolding assms(1,2) by (rule sanitized_no_slash)+
  with assms(3) show ?thesis by (rule slash_free_distinct_paths)
qed

text \<open>The hypotheses of C6 at the derivation names of \<open>a.zip\<close> and \<open>b.zip\<close>.\<close>

theorem distinct_names_distinct_paths_witness:
  "sanitizeDerivationName ''a.zip'' = ''a.zip'' \<and> sanitizeDerivationName ''b.zip'' = ''b.zip''
   \<and> ''a.zip'' \<noteq> ''b.zip''
   \<and> (\<forall>createHash.
         computeFixedOutputStorePath createHash ''a.zip'' ''00'' ''sha512'' ''/nix/store''
         \<noteq> computeFixedOutputStorePath createHash ''b.zip'' ''00'' ''sha512'' ''/nix/store'')"
proof -
  have a: "''a.zip'' = sanitizeDerivationName ''a.zip''"
    by (rule sanitize_fixpoint [symmetric]) (simp_all add: nameChar_def)
  have b: "''b.zip'' = sanitizeDerivationName ''b.zip''"
    by (rule sanitize_fixpoint [symmetric]) (simp_all add: nameChar_def)
  have c: "''a.zip'' \<noteq> ''b.zip''" by simp
  show ?thesis using a [symmetric] b [symmetric] c distinct_names_distinct_paths [OF a b c] by blast
qed

section \<open>Properties of the fetch cache\<close>

lemma fetch_structure:
  "fetchPackageFromNixStore env createHash locator expectedChecksum cb
   = io_bind (resolvePackage env createHash (locatorDerivationName env locator) expectedChecksum cb)
       (\<lambda>(checksum, storePath). openPackage env storePath checksum)"
  unfolding fetchPackageFromNixStore_def resolvePackage_def missBranch_def openPackage_def Let_def
  by (rule refl)

lemma io_bindE:
  assumes "io_bind m f w = (r, evs, w')"
  obtains (throws) e where "m w = (Inl e, evs, w')" and "r = Inl e"
  | (continues) x tr w1 tr' where "m w = (Inr x, tr, w1)" and "f x w1 = (r, tr', w')"
      and "evs = tr @ tr'"
proof (cases "m w")
  case (fields a tr w1)
  show ?thesis
  proof (cases a)
    case (Inl e)
    with fields assms have "m w = (Inl e, evs, w')" "r = Inl e"
      by (simp_all add: io_bind_def)
    then show ?thesis by (rule throws)
  next
    case (Inr x)
    obtain r2 tr' w2 where f: "f x w1 = (r2, tr', w2)" by (cases "f x w1")
    with fields Inr assms have "r2 = r" "w2 = w'" "evs = tr @ tr'"
      by (simp_all add: io_bind_def)
    with fields Inr f show ?thesis by (intro continues) simp_all
  qed
qed

lemma awaitE:
  assumes "await call ev w = (r, evs, w')"
  obtains (rejected) m where "call w = (Inl m, w')" and "r = Inl (Rejected m)" and "evs = [ev (Inl m)]"
  | (fulfilled) x where "call w = (Inr x, w')" and "r = Inr x" and "evs = [ev (Inr x)]"
proof (cases "call w")
  case (Pair a w1)
  show ?thesis
  proof (cases a)
    case (Inl m)
    with Pair assms show ?thesis by (intro rejected [of m]) (simp_all add: await_def)
  next
    case (Inr x)
    with Pair assms show ?thesis by (intro fulfilled [of x]) (simp_all add: await_def)
  qed
qed

lemma await_existsE:
  assumes "await_exists env p w = (r, evs, w')"
  obtains b where "existsPromise env p w = (b, w')" and "r = Inr b" and "evs = [ExistsPromise p b]"
proof (cases "existsPromise env p w")
  case (Pair b w1)
  with assms show ?thesis by (intro that [of b]) (simp_all add: await_exists_def)
qed

lemma notifyE:
  assumes "notify callback ev w = (r, evs, w')"
  obtains "r = Inr ()" and "evs = [ev]" and "w' = callback w"
  using assms by (auto simp: notify_def)

lemma io_returnE:
  assumes "io_return x w = (r, evs, w')"
  obtains "r = Inr x" and "evs = []" and "w' = w"
  using assms by (auto simp: io_return_def)

lemma io_throwE:
  assumes "io_throw e w = (r, evs, w')"
  obtains "r = Inl e" and "evs = []" and "w' = w"
  using assms by (auto simp: io_throw_def)

lemmas ioE = io_bindE awaitE await_existsE notifyE io_returnE io_throwE

lemma openPackage_run:
  "openPackage env sp ck w = (r, evs, w') \<Longrightarrow> open_run sp ck r evs"
  unfolding openPackage_def Let_def
  by (auto elim!: ioE intro!: open_run.intros)

lemma missBranch_run:
  "missBranch env createHash name cb w = (r, evs, w') \<Longrightarrow> miss_run createHash name r evs"
  unfolding missBranch_def Let_def
  by (auto elim!: ioE split: if_splits intro!: miss_run.intros)

lemma ppath_normalize_nonempty: "ppath_normalize p \<noteq> []"
  by (simp add: ppath_normalize_def Let_def)

lemma ppath_join_nonempty: "ppath_join a b \<noteq> []"
  by (simp add: ppath_join_def ppath_normalize_nonempty)

lemma storePath_nonempty: "computeFixedOutputStorePath_default createHash name c \<noteq> []"
  by (simp add: computeFixedOutputStorePath_default_def computeFixedOutputStorePath_def Let_def
        ppath_join_nonempty)

lemma resolvePackage_run:
  assumes "resolvePackage env createHash name expectedChecksum cb w = (r, evs, w')"
  shows "resolve_run createHash name expectedChecksum (firstCheck env createHash name expectedChecksum w) r evs"
proof (cases expectedChecksum)
  case None
  with assms show ?thesis
    by (auto simp: resolvePackage_def firstCheck_def intro!: resolve_run.unchecked_miss missBranch_run)
next
  case (Some c)
  show ?thesis
  proof (cases "c = []")
    case True
    with Some assms show ?thesis
      by (auto simp: resolvePackage_def firstCheck_def intro!: resolve_run.unchecked_miss missBranch_run)
  next
    case False
    with Some assms show ?thesis
      unfolding resolvePackage_def firstCheck_def Let_def
      by (auto simp: storePath_nonempty elim!: ioE split: if_splits
          intro!: resolve_run.hit resolve_run.checked_miss missBranch_run)
  qed
qed

lemma fetch_runs:
  assumes "fetchPackageFromNixStore env createHash locator expectedChecksum cb w = (r, tr, w')"
  shows "fetch_run createHash (locatorDerivationName env locator) expectedChecksum
           (firstCheck env createHash (locatorDerivationName env locator) expectedChecksum w) r tr"
  using assms unfolding fetch_structure
  by (auto elim!: io_bindE intro!: fetch_run.intros dest!: resolvePackage_run openPackage_run)

lemma afterChecksum_append_Some:
  "afterChecksum xs = Some e \<Longrightarrow> afterChecksum (xs @ ys) = Some e"
  by (induction xs rule: afterChecksum.induct) (auto split: list.splits)

lemma afterChecksum_append_none:
  "\<not> list_ex isChecksumFile xs \<Longrightarrow> afterChecksum (xs @ ys) = afterChecksum ys"
  by (induction xs rule: afterChecksum.induct) auto

lemma afterChecksum_none:
  "\<not> list_ex isChecksumFile xs \<Longrightarrow> afterChecksum xs = None"
  by (induction xs rule: afterChecksum.induct) auto

subsection \<open>What opening the archive contributes\<close>

lemma open_run_events:
  assumes "open_run sp ck r oevs"
  shows "\<not> list_ex isLoader oevs" and "\<not> list_ex isExecvp oevs" and "\<not> list_ex isChecksumFile oevs"
    and "OnHit \<notin> set oevs" and "r \<noteq> Inl AssertionFailure"
  using assms by (cases; simp)+

lemma open_run_result:
  assumes "open_run sp ck r oevs" and "r = Inr (fs, rel, ck')"
  shows "ck' = ck" and "fs = ZipFS sp" and "NewZipFS sp (Inr ()) \<in> set oevs"
  using assms by (cases; simp)+

lemma open_run_succeeds:
  assumes "open_run sp ck r oevs" and "list_all succeeded oevs"
  shows "r = Inr (ZipFS sp, DiscardAndClose (ZipFS sp), ck)"
  using assms by (cases; simp)

subsection \<open>What the miss branch contributes\<close>

lemma miss_run_loader_once:
  assumes "miss_run createHash name r mevs"
  shows "length (filter isLoader mevs) = 1"
  using assms by (cases; simp)

lemma miss_run_no_hit:
  assumes "miss_run createHash name r mevs"
  shows "OnHit \<notin> set mevs"
  using assms by (cases; simp)

lemma miss_run_result:
  assumes "miss_run createHash name (Inr (ck, sp)) mevs"
  shows "\<exists>rp cs found.
           Loader (Inr rp) \<in> set mevs \<and> ChecksumFile rp (Inr cs) \<in> set mevs
           \<and> ck = CACHE_KEY_NS @ cs
           \<and> sp = computeFixedOutputStorePath_default createHash name ck
           \<and> afterChecksum mevs = Some (ExistsPromise sp found)"
  using assms
proof cases
  case (race sp' cs u rp)
  then show ?thesis by (cases u) auto
next
  case (imported sp' cs args out u rp)
  then show ?thesis by (cases u) auto
qed

lemma miss_run_race:
  assumes "miss_run createHash name r mevs"
    and "afterChecksum mevs = Some (ExistsPromise sp True)"
  shows "\<exists>rp cs u.
           mevs = [OnMiss, Loader (Inr rp), ChecksumFile rp (Inr cs), ExistsPromise sp True,
                   UnlinkPromise rp u]
           \<and> sp = computeFixedOutputStorePath_default createHash name (CACHE_KEY_NS @ cs)
           \<and> ((\<exists>m. u = Inl m \<and> r = Inl (Rejected m))
              \<or> (u = Inr () \<and> r = Inr (CACHE_KEY_NS @ cs, sp)))"
  using assms by cases (auto split: sum.splits)

lemma miss_run_import:
  assumes "miss_run createHash name r mevs"
    and "afterChecksum mevs = Some (ExistsPromise sp False)"
  shows "\<exists>rp cs rest.
           mevs = [OnMiss, Loader (Inr rp), ChecksumFile rp (Inr cs), ExistsPromise sp False] @ rest
           \<and> sp = computeFixedOutputStorePath_default createHash name (CACHE_KEY_NS @ cs)
           \<and> ((\<exists>m. rest = [RenamePromise rp (ppath_join (ppath_dirname rp) name) (Inl m)]
                    \<and> r = Inl (Rejected m))
              \<or> (\<exists>m. rest = [RenamePromise rp (ppath_join (ppath_dirname rp) name) (Inr ()),
                               Execvp ''nix-store'' [''--add-fixed'', ''sha512'', ''./'' @ name]
                                 (ppath_dirname rp) (Inl m)]
                    \<and> r = Inl (Rejected m))
              \<or> (\<exists>out. rest = [RenamePromise rp (ppath_join (ppath_dirname rp) name) (Inr ()),
                               Execvp ''nix-store'' [''--add-fixed'', ''sha512'', ''./'' @ name]
                                 (ppath_dirname rp) (Inr out)]
                    \<and> trim out \<noteq> sp \<and> r = Inl AssertionFailure)
              \<or> (\<exists>out u. rest = [RenamePromise rp (ppath_join (ppath_dirname rp) name) (Inr ()),
                               Execvp ''nix-store'' [''--add-fixed'', ''sha512'', ''./'' @ name]
                                 (ppath_dirname rp) (Inr out),
                               UnlinkPromise (ppath_join (ppath_dirname rp) name) u]
                    \<and> trim out = sp
                    \<and> ((\<exists>m. u = Inl m \<and> r = Inl (Rejected m))
                       \<or> (u = Inr () \<and> r = Inr (CACHE_KEY_NS @ cs, sp)))))"
  using assms by cases (auto split: sum.splits)

lemma filter_none: "\<not> list_ex P xs \<Longrightarrow> filter P xs = []"
  by (induction xs) auto

lemma resolve_run_shapes:
  assumes "resolve_run createHash name expectedChecksum chk r evs"
  shows "(chk = Some True
          \<and> (\<exists>c. expectedChecksum = Some c \<and> c \<noteq> []
                \<and> r = Inr (c, computeFixedOutputStorePath_default createHash name c)
                \<and> evs = [ExistsPromise (computeFixedOutputStorePath_default createHash name c) True, OnHit]))
       \<or> (chk \<noteq> Some True
          \<and> (\<exists>pre mevs. (pre = [] \<or> (\<exists>p. pre = [ExistsPromise p False]))
                \<and> evs = pre @ mevs \<and> miss_run createHash name r mevs))"
  using assms
proof cases
  case (hit c p)
  then show ?thesis by simp
next
  case (checked_miss c p mevs)
  have "chk \<noteq> Some True
          \<and> (\<exists>pre mevs. (pre = [] \<or> (\<exists>p. pre = [ExistsPromise p False]))
                \<and> evs = pre @ mevs \<and> miss_run createHash name r mevs)"
  proof (intro conjI exI)
    show "chk \<noteq> Some True" using checked_miss by simp
    show "[ExistsPromise p False] = [] \<or> (\<exists>q. [ExistsPromise p False] = [ExistsPromise q False])"
      by simp
    show "evs = [ExistsPromise p False] @ mevs" using checked_miss by simp
    show "miss_run createHash name r mevs" using checked_miss by simp
  qed
  then show ?thesis by (rule disjI2)
next
  case unchecked_miss
  have "chk \<noteq> Some True
          \<and> (\<exists>pre mevs. (pre = [] \<or> (\<exists>p. pre = [ExistsPromise p False]))
                \<and> evs = pre @ mevs \<and> miss_run createHash name r mevs)"
  proof (intro conjI exI)
    show "chk \<noteq> Some True" using unchecked_miss by simp
    show "([]::event list) = [] \<or> (\<exists>q. [] = [ExistsPromise q False])" by simp
    show "evs = [] @ evs" by simp
    show "miss_run createHash name r evs" using unchecked_miss by simp
  qed
  then show ?thesis by (rule disjI2)
qed

lemma fetch_run_shapes:
  assumes "fetch_run createHash name expectedChecksum chk r tr"
  shows "(chk = Some True
          \<and> (\<exists>c oevs. expectedChecksum = Some c \<and> c \<noteq> []
                \<and> tr = [ExistsPromise (computeFixedOutputStorePath_default createHash name c) True, OnHit] @ oevs
                \<and> open_run (computeFixedOutputStorePath_default createHash name c) c r oevs))
       \<or> (chk \<noteq> Some True
          \<and> (\<exists>pre mevs. (pre = [] \<or> (\<exists>p. pre = [ExistsPromise p False]))
                \<and> ((\<exists>e. miss_run createHash name (Inl e) mevs \<and> r = Inl e \<and> tr = pre @ mevs)
                   \<or> (\<exists>ck sp oevs. miss_run createHash name (Inr (ck, sp)) mevs
                          \<and> open_run sp ck r oevs \<and> tr = pre @ mevs @ oevs))))"
  using assms
proof cases
  case (unresolved e)
  from resolve_run_shapes [OF unresolved(2)] obtain pre mevs where
    f: "chk \<noteq> Some True" "pre = [] \<or> (\<exists>p. pre = [ExistsPromise p False])" "tr = pre @ mevs"
    "miss_run createHash name (Inl e) mevs"
    by auto
  have "\<exists>e. miss_run createHash name (Inl e) mevs \<and> r = Inl e \<and> tr = pre @ mevs"
    using f unresolved(1) by blast
  with f(1,2) show ?thesis by blast
next
  case (resolved ck sp evs oevs)
  from resolve_run_shapes [OF resolved(2)]
  consider (hit) c where "chk = Some True" "expectedChecksum = Some c" "c \<noteq> []"
      "ck = c" "sp = computeFixedOutputStorePath_default createHash name c"
      "evs = [ExistsPromise (computeFixedOutputStorePath_default createHash name c) True, OnHit]"
    | (miss) pre mevs where "chk \<noteq> Some True" "pre = [] \<or> (\<exists>p. pre = [ExistsPromise p False])"
      "evs = pre @ mevs" "miss_run createHash name (Inr (ck, sp)) mevs"
    by auto
  then show ?thesis
  proof cases
    case hit
    with resolved(1,3) show ?thesis by simp
  next
    case miss
    have "\<exists>ck sp oevs. miss_run createHash name (Inr (ck, sp)) mevs
                          \<and> open_run sp ck r oevs \<and> tr = pre @ mevs @ oevs"
      using miss resolved(1,3) by auto
    with miss(1,2) show ?thesis by blast
  qed
qed

text \<open>
  Claim C2, as amended.  When \<open>expectedChecksum\<close> is a non-empty string and the store
  path predicted from it exists, the loader is not invoked, the hit callback is called and
  a fetch that returns returns \<open>expectedChecksum\<close>.
\<close>

theorem fetch_hit:
  assumes "c \<noteq> []"
    and "fst (existsPromise env
           (computeFixedOutputStorePath_default createHash (locatorDerivationName env locator) c) w)"
    and "fetchPackageFromNixStore env createHash locator (Some c) cb w = (r, tr, w')"
  shows "\<not> list_ex isLoader tr \<and> OnHit \<in> set tr
       \<and> (\<forall>fs rel ck. r = Inr (fs, rel, ck) \<longrightarrow> ck = c)"
proof -
  let ?name = "locatorDerivationName env locator"
  have chk: "firstCheck env createHash ?name (Some c) w = Some True"
    using assms(1,2) by (simp add: firstCheck_def)
  from fetch_run_shapes [OF fetch_runs [OF assms(3)]] chk
  obtain oevs where tr: "tr = [ExistsPromise (computeFixedOutputStorePath_default createHash ?name c) True, OnHit] @ oevs"
    and op: "open_run (computeFixedOutputStorePath_default createHash ?name c) c r oevs"
    by auto
  have "\<not> list_ex isLoader tr"
    using open_run_events(1) [OF op] by (simp add: tr)
  moreover have "OnHit \<in> set tr" by (simp add: tr)
  moreover have "\<forall>fs rel ck. r = Inr (fs, rel, ck) \<longrightarrow> ck = c"
    using open_run_result(1) [OF op] by blast
  ultimately show ?thesis by blast
qed

text \<open>
  Claim C3.  On the miss branch (no expected checksum, an empty one, or a predicted path
  that does not exist) the loader is invoked exactly once; a fetch that returns returns
  \<open>nix.1/\<close> followed by the checksum of the file the loader produced, and the store path
  checked after the checksum and opened at the end is the one re-derived from that
  prefixed checksum.
\<close>

theorem fetch_miss:
  assumes "expectedChecksum = None
         \<or> (\<exists>c. expectedChecksum = Some c
                \<and> (c = [] \<or> \<not> fst (existsPromise env
                      (computeFixedOutputStorePath_default createHash (locatorDerivationName env locator) c) w)))"
    and "fetchPackageFromNixStore env createHash locator expectedChecksum cb w = (r, tr, w')"
  shows "length (filter isLoader tr) = 1
       \<and> (\<forall>fs rel ck. r = Inr (fs, rel, ck) \<longrightarrow>
            (\<exists>resultPath fileChecksum.
               Loader (Inr resultPath) \<in> set tr
               \<and> ChecksumFile resultPath (Inr fileChecksum) \<in> set tr
               \<and> ck = ''nix.1/'' @ fileChecksum
               \<and> (\<exists>found. afterChecksum tr = Some (ExistsPromise
                     (computeFixedOutputStorePath_default createHash (locatorDerivationName env locator) ck)
                     found))
               \<and> NewZipFS
                     (computeFixedOutputStorePath_default createHash (locatorDerivationName env locator) ck)
                     (Inr ()) \<in> set tr
               \<and> fs = ZipFS
                     (computeFixedOutputStorePath_default createHash (locatorDerivationName env locator) ck)))"
proof -
  let ?name = "locatorDerivationName env locator"
  have chk: "firstCheck env createHash ?name expectedChecksum w \<noteq> Some True"
    using assms(1) by (auto simp: firstCheck_def split: if_splits)
  from fetch_run_shapes [OF fetch_runs [OF assms(2)]] chk
  obtain pre mevs where pre: "pre = [] \<or> (\<exists>p. pre = [ExistsPromise p False])"
    and shape: "(\<exists>e. miss_run createHash ?name (Inl e) mevs \<and> r = Inl e \<and> tr = pre @ mevs)
              \<or> (\<exists>ck sp oevs. miss_run createHash ?name (Inr (ck, sp)) mevs
                     \<and> open_run sp ck r oevs \<and> tr = pre @ mevs @ oevs)"
    by blast
  from pre have pre_loader: "filter isLoader pre = []" and pre_ck: "\<not> list_ex isChecksumFile pre"
    by auto
  from shape
  consider (thrown) e where "miss_run createHash ?name (Inl e) mevs" "r = Inl e" "tr = pre @ mevs"
    | (returned) ck sp oevs where "miss_run createHash ?name (Inr (ck, sp)) mevs"
        "open_run sp ck r oevs" "tr = pre @ mevs @ oevs"
    by blast
  then show ?thesis
  proof cases
    case thrown
    have "length (filter isLoader tr) = 1"
      using miss_run_loader_once [OF thrown(1)] pre_loader by (simp add: thrown(3))
    with thrown(2) show ?thesis by simp
  next
    case returned
    note m = returned(1) and op = returned(2) and tr = returned(3)
    have count: "length (filter isLoader tr) = 1"
      using miss_run_loader_once [OF m] pre_loader filter_none [OF open_run_events(1) [OF op]]
      by (simp add: tr)
    from miss_run_result [OF m] obtain rp cs found where
      l: "Loader (Inr rp) \<in> set mevs" and c: "ChecksumFile rp (Inr cs) \<in> set mevs"
      and ck: "ck = CACHE_KEY_NS @ cs"
      and sp: "sp = computeFixedOutputStorePath_default createHash ?name ck"
      and ac: "afterChecksum mevs = Some (ExistsPromise sp found)"
      by blast
    have ac_tr: "afterChecksum tr = Some (ExistsPromise sp found)"
      unfolding tr using afterChecksum_append_none [OF pre_ck] afterChecksum_append_Some [OF ac]
      by simp
    have "\<exists>resultPath fileChecksum.
               Loader (Inr resultPath) \<in> set tr
               \<and> ChecksumFile resultPath (Inr fileChecksum) \<in> set tr
               \<and> ck' = ''nix.1/'' @ fileChecksum
               \<and> (\<exists>found. afterChecksum tr = Some (ExistsPromise
                     (computeFixedOutputStorePath_default createHash ?name ck') found))
               \<and> NewZipFS (computeFixedOutputStorePath_default createHash ?name ck') (Inr ()) \<in> set tr
               \<and> fs = ZipFS (computeFixedOutputStorePath_default createHash ?name ck')"
      if res: "r = Inr (fs, rel, ck')" for fs rel ck'
    proof -
      from open_run_result [OF op res] have "ck' = ck" "fs = ZipFS sp" "NewZipFS sp (Inr ()) \<in> set oevs"
        by simp_all
      with l c ck sp ac_tr show ?thesis
        by (intro exI [of _ rp] exI [of _ cs]) (auto simp: tr CACHE_KEY_NS_def)
    qed
    with count show ?thesis by blast
  qed
qed

text \<open>
  Claim C10.  When, after the checksum of the loaded file has been computed, the
  re-derived store path is found to exist, the loaded file is unlinked, no store import is
  run, no assertion failure is raised, and the fetch returns the archive at that path
  whenever none of its external calls is rejected.
\<close>

theorem fetch_race:
  assumes "fetchPackageFromNixStore env createHash locator expectedChecksum cb w = (r, tr, w')"
    and "afterChecksum tr = Some (ExistsPromise sp True)"
  shows "\<not> list_ex isExecvp tr \<and> r \<noteq> Inl AssertionFailure
       \<and> (\<exists>resultPath fileChecksum.
             Loader (Inr resultPath) \<in> set tr
             \<and> ChecksumFile resultPath (Inr fileChecksum) \<in> set tr
             \<and> sp = computeFixedOutputStorePath_default createHash (locatorDerivationName env locator)
                      (''nix.1/'' @ fileChecksum)
             \<and> (\<exists>u. UnlinkPromise resultPath u \<in> set tr)
             \<and> (list_all succeeded tr \<longrightarrow>
                  r = Inr (ZipFS sp, DiscardAndClose (ZipFS sp), ''nix.1/'' @ fileChecksum)))"
proof -
  let ?name = "locatorDerivationName env locator"
  from fetch_run_shapes [OF fetch_runs [OF assms(1)]]
  consider (hit) c oevs where
      "tr = [ExistsPromise (computeFixedOutputStorePath_default createHash ?name c) True, OnHit] @ oevs"
      "open_run (computeFixedOutputStorePath_default createHash ?name c) c r oevs"
    | (thrown) pre mevs e where "pre = [] \<or> (\<exists>p. pre = [ExistsPromise p False])"
      "miss_run createHash ?name (Inl e) mevs" "r = Inl e" "tr = pre @ mevs"
    | (returned) pre mevs ck sp' oevs where "pre = [] \<or> (\<exists>p. pre = [ExistsPromise p False])"
      "miss_run createHash ?name (Inr (ck, sp')) mevs" "open_run sp' ck r oevs" "tr = pre @ mevs @ oevs"
    by blast
  then show ?thesis
  proof cases
    case hit
    have "afterChecksum tr = None"
      using afterChecksum_none [OF open_run_events(3) [OF hit(2)]] by (simp add: hit(1))
    with assms(2) show ?thesis by simp
  next
    case thrown
    note pre = thrown(1) and m = thrown(2) and r = thrown(3) and tr = thrown(4)
    from pre have pre_ck: "\<not> list_ex isChecksumFile pre" by auto
    have "afterChecksum mevs = Some (ExistsPromise sp True)"
      using assms(2) afterChecksum_append_none [OF pre_ck] by (simp add: tr)
    from miss_run_race [OF m this] obtain rp cs u where
      mevs: "mevs = [OnMiss, Loader (Inr rp), ChecksumFile rp (Inr cs), ExistsPromise sp True,
                     UnlinkPromise rp u]"
      and sp: "sp = computeFixedOutputStorePath_default createHash ?name (CACHE_KEY_NS @ cs)"
      and e: "(\<exists>m. u = Inl m \<and> Inl e = (Inl (Rejected m) :: error + string \<times> path))
            \<or> (u = Inr () \<and> Inl e = (Inr (CACHE_KEY_NS @ cs, sp) :: error + string \<times> path))"
      by blast
    from e obtain msg where u: "u = Inl msg" and e': "e = Rejected msg" by auto
    from pre show ?thesis
      by (intro conjI exI [of _ rp] exI [of _ cs] exI [of _ u])
         (auto simp: tr mevs r e' u sp CACHE_KEY_NS_def)
  next
    case returned
    note pre = returned(1) and m = returned(2) and op = returned(3) and tr = returned(4)
    from pre have pre_ck: "\<not> list_ex isChecksumFile pre" by auto
    from miss_run_result [OF m] obtain found where f: "afterChecksum mevs = Some (ExistsPromise sp' found)"
      by blast
    from afterChecksum_append_Some [OF f, of oevs] assms(2) afterChecksum_append_none [OF pre_ck]
    have same: "sp' = sp" and ac: "afterChecksum mevs = Some (ExistsPromise sp True)"
      using f by (simp_all add: tr)
    from miss_run_race [OF m ac] obtain rp cs u where
      mevs: "mevs = [OnMiss, Loader (Inr rp), ChecksumFile rp (Inr cs), ExistsPromise sp True,
                     UnlinkPromise rp u]"
      and sp: "sp = computeFixedOutputStorePath_default createHash ?name (CACHE_KEY_NS @ cs)"
      and res: "(\<exists>m. u = Inl m \<and> Inr (ck, sp') = (Inl (Rejected m) :: error + string \<times> path))
            \<or> (u = Inr () \<and> Inr (ck, sp') = (Inr (CACHE_KEY_NS @ cs, sp) :: error + string \<times> path))"
      by blast
    from res have ck: "ck = CACHE_KEY_NS @ cs" by auto
    have fin: "r = Inr (ZipFS sp, DiscardAndClose (ZipFS sp), CACHE_KEY_NS @ cs)"
      if "list_all succeeded tr"
      using open_run_succeeds [OF op] that by (simp add: tr same ck)
    from pre open_run_events(2,5) [OF op] fin show ?thesis
      by (intro conjI exI [of _ rp] exI [of _ cs] exI [of _ u])
         (auto simp: tr mevs sp CACHE_KEY_NS_def)
  qed
qed

text \<open>
  Claim C9.  When, after the checksum of the loaded file has been computed, the re-derived
  store path is found not to exist, the file is renamed and, the rename done, the store
  import is run; when the import yields an output, the fetch throws the assertion failure
  exactly when the trimmed output differs from the computed store path, and on equality it
  goes on to unlink the renamed file and returns the archive at that path whenever none of
  its external calls is rejected.
\<close>

theorem fetch_import:
  assumes "fetchPackageFromNixStore env createHash locator expectedChecksum cb w = (r, tr, w')"
    and "afterChecksum tr = Some (ExistsPromise sp False)"
  shows "\<exists>resultPath fileChecksum.
           Loader (Inr resultPath) \<in> set tr
           \<and> ChecksumFile resultPath (Inr fileChecksum) \<in> set tr
           \<and> sp = computeFixedOutputStorePath_default createHash (locatorDerivationName env locator)
                    (''nix.1/'' @ fileChecksum)
           \<and> (\<exists>res. RenamePromise resultPath
                        (ppath_join (ppath_dirname resultPath) (locatorDerivationName env locator)) res
                      \<in> set tr)
           \<and> (RenamePromise resultPath
                 (ppath_join (ppath_dirname resultPath) (locatorDerivationName env locator)) (Inr ())
               \<in> set tr \<longrightarrow>
               (\<exists>res. Execvp ''nix-store''
                        [''--add-fixed'', ''sha512'', ''./'' @ locatorDerivationName env locator]
                        (ppath_dirname resultPath) res \<in> set tr))
           \<and> (\<forall>out. Execvp ''nix-store''
                        [''--add-fixed'', ''sha512'', ''./'' @ locatorDerivationName env locator]
                        (ppath_dirname resultPath) (Inr out) \<in> set tr \<longrightarrow>
                 ((r = Inl AssertionFailure) = (trim out \<noteq> sp))
                 \<and> (trim out = sp \<longrightarrow>
                      (\<exists>u. UnlinkPromise
                             (ppath_join (ppath_dirname resultPath) (locatorDerivationName env locator)) u
                           \<in> set tr)
                      \<and> (list_all succeeded tr \<longrightarrow>
                           r = Inr (ZipFS sp, DiscardAndClose (ZipFS sp), ''nix.1/'' @ fileChecksum))))"
proof -
  let ?name = "locatorDerivationName env locator"
  from fetch_run_shapes [OF fetch_runs [OF assms(1)]]
  consider (hit) c oevs where
      "tr = [ExistsPromise (computeFixedOutputStorePath_default createHash ?name c) True, OnHit] @ oevs"
      "open_run (computeFixedOutputStorePath_default createHash ?name c) c r oevs"
    | (thrown) pre mevs e where "pre = [] \<or> (\<exists>p. pre = [ExistsPromise p False])"
      "miss_run createHash ?name (Inl e) mevs" "r = Inl e" "tr = pre @ mevs"
    | (returned) pre mevs ck sp' oevs where "pre = [] \<or> (\<exists>p. pre = [ExistsPromise p False])"
      "miss_run createHash ?name (Inr (ck, sp')) mevs" "open_run sp' ck r oevs" "tr = pre @ mevs @ oevs"
    by blast
  then show ?thesis
  proof cases
    case hit
    have "afterChecksum tr = None"
      using afterChecksum_none [OF open_run_events(3) [OF hit(2)]] by (simp add: hit(1))
    with assms(2) show ?thesis by simp
  next
    case thrown
    note pre = thrown(1) and m = thrown(2) and r = thrown(3) and tr = thrown(4)
    from pre have pre_ck: "\<not> list_ex isChecksumFile pre"
      and pre_ex: "\<And>cmd args cwd res. Execvp cmd args cwd res \<notin> set pre"
      and pre_rn: "\<And>p q res. RenamePromise p q res \<notin> set pre"
      and pre_ul: "\<And>p res. UnlinkPromise p res \<notin> set pre"
      by auto
    have "afterChecksum mevs = Some (ExistsPromise sp False)"
      using assms(2) afterChecksum_append_none [OF pre_ck] by (simp add: tr)
    from miss_run_import [OF m this] obtain rp cs rest where
      mevs: "mevs = [OnMiss, Loader (Inr rp), ChecksumFile rp (Inr cs), ExistsPromise sp False] @ rest"
      and sp: "sp = computeFixedOutputStorePath_default createHash ?name (CACHE_KEY_NS @ cs)"
      and rest: "(\<exists>m. rest = [RenamePromise rp (ppath_join (ppath_dirname rp) ?name) (Inl m)]
                    \<and> Inl e = Inl (Rejected m))
              \<or> (\<exists>m. rest = [RenamePromise rp (ppath_join (ppath_dirname rp) ?name) (Inr ()),
                               Execvp ''nix-store'' [''--add-fixed'', ''sha512'', ''./'' @ ?name]
                                 (ppath_dirname rp) (Inl m)]
                    \<and> Inl e = Inl (Rejected m))
              \<or> (\<exists>out. rest = [RenamePromise rp (ppath_join (ppath_dirname rp) ?name) (Inr ()),
                               Execvp ''nix-store'' [''--add-fixed'', ''sha512'', ''./'' @ ?name]
                                 (ppath_dirname rp) (Inr out)]
                    \<and> trim out \<noteq> sp \<and> Inl e = Inl AssertionFailure)
              \<or> (\<exists>out u. rest = [RenamePromise rp (ppath_join (ppath_dirname rp) ?name) (Inr ()),
                               Execvp ''nix-store'' [''--add-fixed'', ''sha512'', ''./'' @ ?name]
                                 (ppath_dirname rp) (Inr out),
                               UnlinkPromise (ppath_join (ppath_dirname rp) ?name) u]
                    \<and> trim out = sp
                    \<and> ((\<exists>m. u = Inl m \<and> Inl e = (Inl (Rejected m) :: error + string \<times> path))
                       \<or> (u = Inr () \<and> Inl e = (Inr (CACHE_KEY_NS @ cs, sp) :: error + string \<times> path))))"
      by blast
    have sp': "sp = computeFixedOutputStorePath_default createHash ?name (''nix.1/'' @ cs)"
      using sp by (simp only: CACHE_KEY_NS_def)
    note spn = sp' [symmetric, simplified]
    from rest consider
        (rename_rejects) msg where
          "rest = [RenamePromise rp (ppath_join (ppath_dirname rp) ?name) (Inl msg)]"
          "e = Rejected msg"
      | (import_rejects) msg where
          "rest = [RenamePromise rp (ppath_join (ppath_dirname rp) ?name) (Inr ()),
                   Execvp ''nix-store'' [''--add-fixed'', ''sha512'', ''./'' @ ?name]
                     (ppath_dirname rp) (Inl msg)]"
          "e = Rejected msg"
      | (mismatch) out where
          "rest = [RenamePromise rp (ppath_join (ppath_dirname rp) ?name) (Inr ()),
                   Execvp ''nix-store'' [''--add-fixed'', ''sha512'', ''./'' @ ?name]
                     (ppath_dirname rp) (Inr out)]"
          "trim out \<noteq> sp" "e = AssertionFailure"
      | (unlink_rejects) out msg where
          "rest = [RenamePromise rp (ppath_join (ppath_dirname rp) ?name) (Inr ()),
                   Execvp ''nix-store'' [''--add-fixed'', ''sha512'', ''./'' @ ?name]
                     (ppath_dirname rp) (Inr out),
                   UnlinkPromise (ppath_join (ppath_dirname rp) ?name) (Inl msg)]"
          "trim out = sp" "e = Rejected msg"
      by auto
    then show ?thesis
    proof cases
      case rename_rejects
      show ?thesis
        by (rule exI [of _ rp], rule exI [of _ cs])
           (simp add: tr mevs rename_rejects r sp' pre_ex pre_rn pre_ul)
    next
      case import_rejects
      show ?thesis
        by (rule exI [of _ rp], rule exI [of _ cs])
           (simp add: tr mevs import_rejects r sp' pre_ex pre_rn pre_ul)
    next
      case mismatch
      show ?thesis
        by (rule exI [of _ rp], rule exI [of _ cs])
           (simp add: tr mevs mismatch r spn pre_ex pre_rn pre_ul)
    next
      case unlink_rejects
      show ?thesis
        by (rule exI [of _ rp], rule exI [of _ cs])
           (simp add: tr mevs unlink_rejects r spn pre_ex pre_rn pre_ul)
    qed
  next
    case returned
    note pre = returned(1) and m = returned(2) and op = returned(3) and tr = returned(4)
    from pre have pre_ck: "\<not> list_ex isChecksumFile pre"
      and pre_ex: "\<And>cmd args cwd res. Execvp cmd args cwd res \<notin> set pre"
      and pre_rn: "\<And>p q res. RenamePromise p q res \<notin> set pre"
      and pre_ul: "\<And>p res. UnlinkPromise p res \<notin> set pre"
      by auto
    have op_ex: "Execvp cmd args cwd res \<notin> set oevs" for cmd args cwd res
      using open_run_events(2) [OF op] by (auto simp: list_ex_iff)
    have op_ul: "UnlinkPromise p res \<notin> set oevs" for p res
      using op by cases simp_all
    have op_rn: "RenamePromise p q res \<notin> set oevs" for p q res
      using op by cases simp_all
    from miss_run_result [OF m] obtain found where f: "afterChecksum mevs = Some (ExistsPromise sp' found)"
      by blast
    from afterChecksum_append_Some [OF f, of oevs] assms(2) afterChecksum_append_none [OF pre_ck]
    have same: "sp' = sp" and ac: "afterChecksum mevs = Some (ExistsPromise sp False)"
      using f by (simp_all add: tr)
    from miss_run_import [OF m ac] obtain rp cs out u where
      mevs: "mevs = [OnMiss, Loader (Inr rp), ChecksumFile rp (Inr cs), ExistsPromise sp False,
                     RenamePromise rp (ppath_join (ppath_dirname rp) ?name) (Inr ()),
                     Execvp ''nix-store'' [''--add-fixed'', ''sha512'', ''./'' @ ?name]
                       (ppath_dirname rp) (Inr out),
                     UnlinkPromise (ppath_join (ppath_dirname rp) ?name) u]"
      and sp: "sp = computeFixedOutputStorePath_default createHash ?name (CACHE_KEY_NS @ cs)"
      and out: "trim out = sp"
      and u: "u = Inr ()" and res: "ck = CACHE_KEY_NS @ cs"
      by auto
    have sp2: "sp = computeFixedOutputStorePath_default createHash ?name (''nix.1/'' @ cs)"
      using sp by (simp only: CACHE_KEY_NS_def)
    note spn = sp2 [symmetric, simplified]
    from res have ck: "ck = ''nix.1/'' @ cs" by (simp add: CACHE_KEY_NS_def)
    have fin: "list_all succeeded tr \<longrightarrow> r = Inr (ZipFS sp, DiscardAndClose (ZipFS sp), ''nix.1/'' @ cs)"
      using open_run_succeeds [OF op] by (simp add: tr same ck)
    have noassert: "r \<noteq> Inl AssertionFailure" by (rule open_run_events(5) [OF op])
    show ?thesis
      by (rule exI [of _ rp], rule exI [of _ cs])
         (use fin noassert in \<open>simp add: tr mevs spn out pre_ex pre_rn pre_ul op_ex op_ul op_rn\<close>)
  qed
qed

lemmas io_defs = io_bind_def io_return_def io_throw_def await_def await_exists_def notify_def

lemma demo_name:
  "locatorDerivationName (demo_env found out) () = sanitizeDerivationName ''left-pad@npm:1.3.0.zip''"
  by (simp add: locatorDerivationName_def demo_env_def)

lemma demo_miss_race:
  "expectedChecksum = None \<or> expectedChecksum = Some [] \<Longrightarrow>
   fetchPackageFromNixStore (demo_env True out) createHash () expectedChecksum demo_callbacks ()
   = (let sp = computeFixedOutputStorePath_default createHash
                 (sanitizeDerivationName ''left-pad@npm:1.3.0.zip'') (CACHE_KEY_NS @ ''00ff'')
      in (Inr (ZipFS sp, DiscardAndClose (ZipFS sp), CACHE_KEY_NS @ ''00ff''),
          [OnMiss, Loader (Inr ''/tmp/xfs-1/archive.zip''),
           ChecksumFile ''/tmp/xfs-1/archive.zip'' (Inr ''00ff''),
           ExistsPromise sp True, UnlinkPromise ''/tmp/xfs-1/archive.zip'' (Inr ()),
           GetLibzipPromise (Inr ()), NewZipFS sp (Inr ())],
          ()))"
  unfolding fetch_structure resolvePackage_def missBranch_def openPackage_def demo_name
  by (auto simp: io_defs demo_env_def demo_callbacks_def Let_def)

lemma demo_hit:
  "c \<noteq> [] \<Longrightarrow>
   fetchPackageFromNixStore (demo_env True out) createHash () (Some c) demo_callbacks ()
   = (let sp = computeFixedOutputStorePath_default createHash
                 (sanitizeDerivationName ''left-pad@npm:1.3.0.zip'') c
      in (Inr (ZipFS sp, DiscardAndClose (ZipFS sp), c),
          [ExistsPromise sp True, OnHit, GetLibzipPromise (Inr ()), NewZipFS sp (Inr ())],
          ()))"
  unfolding fetch_structure resolvePackage_def missBranch_def openPackage_def demo_name
  by (simp add: io_defs demo_env_def demo_callbacks_def Let_def storePath_nonempty)

lemma trim_Nil: "trim [] = []"
  by (simp add: trim_def)

lemma demo_mismatch:
  "fetchPackageFromNixStore (demo_env False []) createHash () None demo_callbacks ()
   = (let sp = computeFixedOutputStorePath_default createHash
                 (sanitizeDerivationName ''left-pad@npm:1.3.0.zip'') (CACHE_KEY_NS @ ''00ff'');
          name = sanitizeDerivationName ''left-pad@npm:1.3.0.zip''
      in (Inl AssertionFailure,
          [OnMiss, Loader (Inr ''/tmp/xfs-1/archive.zip''),
           ChecksumFile ''/tmp/xfs-1/archive.zip'' (Inr ''00ff''),
           ExistsPromise sp False,
           RenamePromise ''/tmp/xfs-1/archive.zip'' (ppath_join (ppath_dirname ''/tmp/xfs-1/archive.zip'') name) (Inr ()),
           Execvp ''nix-store'' [''--add-fixed'', ''sha512'', ''./'' @ name]
             (ppath_dirname ''/tmp/xfs-1/archive.zip'') (Inr [])],
          ()))"
  unfolding fetch_structure resolvePackage_def missBranch_def openPackage_def demo_name
  by (simp add: io_defs demo_env_def demo_callbacks_def Let_def storePath_nonempty [symmetric] trim_Nil)

lemma run_triple: "x = (fst x, fst (snd x), snd (snd x))"
  by simp

text \<open>
  The hypotheses of the amended C2 in the concrete environment where every path exists,
  with the expected checksum \<open>00ff\<close>.
\<close>

theorem fetch_hit_witness:
  "''00ff'' \<noteq> []
   \<and> (\<forall>createHash.
         fst (existsPromise (demo_env True [])
                (computeFixedOutputStorePath_default createHash
                   (locatorDerivationName (demo_env True []) ()) ''00ff'') ())
         \<and> \<not> list_ex isLoader
               (fst (snd (fetchPackageFromNixStore (demo_env True []) createHash () (Some ''00ff'')
                            demo_callbacks ())))
         \<and> OnHit \<in> set (fst (snd (fetchPackageFromNixStore (demo_env True []) createHash ()
                                      (Some ''00ff'') demo_callbacks ()))))"
proof -
  have a: "''00ff'' \<noteq> []" by simp
  have b: "fst (existsPromise (demo_env True []) p ())" for p
    by (simp add: demo_env_def)
  show ?thesis
    using a b fetch_hit [OF a b run_triple] by blast
qed

text \<open>
  Claim C2 as stated fails at the empty string: it is not \<open>null\<close>, the path predicted
  from it exists in this environment, and yet the loader is invoked and no hit is reported,
  because the empty string is falsy and no path is predicted at all.
\<close>

theorem fetch_hit_empty_checksum:
  "\<forall>createHash.
     fst (existsPromise (demo_env True [])
            (computeFixedOutputStorePath_default createHash
               (locatorDerivationName (demo_env True []) ()) []) ())
     \<and> list_ex isLoader
           (fst (snd (fetchPackageFromNixStore (demo_env True []) createHash () (Some [])
                        demo_callbacks ())))
     \<and> OnHit \<notin> set (fst (snd (fetchPackageFromNixStore (demo_env True []) createHash ()
                                  (Some []) demo_callbacks ())))"
  by (simp add: demo_miss_race Let_def) (simp add: demo_env_def)

text \<open>
  The hypothesis of C3 with no expected checksum: one loader call, and the checksum
  returned is the prefixed checksum of the loaded file.
\<close>

theorem fetch_miss_witness:
  "\<forall>createHash.
     length (filter isLoader
       (fst (snd (fetchPackageFromNixStore (demo_env True []) createHash () None demo_callbacks ()))))
     = 1
     \<and> fst (fetchPackageFromNixStore (demo_env True []) createHash () None demo_callbacks ())
       = Inr (ZipFS (computeFixedOutputStorePath_default createHash
                       (sanitizeDerivationName ''left-pad@npm:1.3.0.zip'') ''nix.1/00ff''),
              DiscardAndClose (ZipFS (computeFixedOutputStorePath_default createHash
                       (sanitizeDerivationName ''left-pad@npm:1.3.0.zip'') ''nix.1/00ff'')),
              ''nix.1/00ff'')"
proof (intro allI conjI)
  fix createHash :: "string \<Rightarrow> string \<Rightarrow> buffer"
  have miss: "(None :: string option) = None
         \<or> (\<exists>c. (None :: string option) = Some c
                \<and> (c = [] \<or> \<not> fst (existsPromise (demo_env True [])
                      (computeFixedOutputStorePath_default createHash
                         (locatorDerivationName (demo_env True []) ()) c) ())))"
    by simp
  from fetch_miss [OF miss run_triple]
  show "length (filter isLoader
       (fst (snd (fetchPackageFromNixStore (demo_env True []) createHash () None demo_callbacks ()))))
     = 1"
    by blast
  show "fst (fetchPackageFromNixStore (demo_env True []) createHash () None demo_callbacks ())
       = Inr (ZipFS (computeFixedOutputStorePath_default createHash
                       (sanitizeDerivationName ''left-pad@npm:1.3.0.zip'') ''nix.1/00ff''),
              DiscardAndClose (ZipFS (computeFixedOutputStorePath_default createHash
                       (sanitizeDerivationName ''left-pad@npm:1.3.0.zip'') ''nix.1/00ff'')),
              ''nix.1/00ff'')"
    by (simp add: demo_miss_race Let_def CACHE_KEY_NS_def)
qed

text \<open>
  The hypothesis of C10 in the environment where every path exists: the existence check
  after the checksum answers \<open>true\<close>.
\<close>

theorem fetch_race_witness:
  "\<forall>createHash.
     afterChecksum
       (fst (snd (fetchPackageFromNixStore (demo_env True []) createHash () None demo_callbacks ())))
     = Some (ExistsPromise (computeFixedOutputStorePath_default createHash
                              (sanitizeDerivationName ''left-pad@npm:1.3.0.zip'') ''nix.1/00ff'') True)
     \<and> \<not> list_ex isExecvp
           (fst (snd (fetchPackageFromNixStore (demo_env True []) createHash () None demo_callbacks ())))
     \<and> fst (fetchPackageFromNixStore (demo_env True []) createHash () None demo_callbacks ())
       \<noteq> Inl AssertionFailure"
proof (intro allI)
  fix createHash :: "string \<Rightarrow> string \<Rightarrow> buffer"
  have hyp: "afterChecksum
       (fst (snd (fetchPackageFromNixStore (demo_env True []) createHash () None demo_callbacks ())))
     = Some (ExistsPromise (computeFixedOutputStorePath_default createHash
                              (sanitizeDerivationName ''left-pad@npm:1.3.0.zip'') ''nix.1/00ff'') True)"
    by (simp add: demo_miss_race Let_def CACHE_KEY_NS_def)
  from fetch_race [OF run_triple hyp] hyp
  show "afterChecksum
       (fst (snd (fetchPackageFromNixStore (demo_env True []) createHash () None demo_callbacks ())))
     = Some (ExistsPromise (computeFixedOutputStorePath_default createHash
                              (sanitizeDerivationName ''left-pad@npm:1.3.0.zip'') ''nix.1/00ff'') True)
     \<and> \<not> list_ex isExecvp
           (fst (snd (fetchPackageFromNixStore (demo_env True []) createHash () None demo_callbacks ())))
     \<and> fst (fetchPackageFromNixStore (demo_env True []) createHash () None demo_callbacks ())
       \<noteq> Inl AssertionFailure"
    by blast
qed

text \<open>
  The hypothesis of C9 in the environment where no path exists and the import prints
  nothing: the existence check after the checksum answers \<open>false\<close>, and the empty
  output differs from the computed path.
\<close>

theorem fetch_import_witness:
  "\<forall>createHash.
     afterChecksum
       (fst (snd (fetchPackageFromNixStore (demo_env False []) createHash () None demo_callbacks ())))
     = Some (ExistsPromise (computeFixedOutputStorePath_default createHash
                              (sanitizeDerivationName ''left-pad@npm:1.3.0.zip'') ''nix.1/00ff'') False)
     \<and> (\<exists>resultPath. Loader (Inr resultPath)
           \<in> set (fst (snd (fetchPackageFromNixStore (demo_env False []) createHash () None
                              demo_callbacks ()))))
     \<and> fst (fetchPackageFromNixStore (demo_env False []) createHash () None demo_callbacks ())
       = Inl AssertionFailure"
proof (intro allI)
  fix createHash :: "string \<Rightarrow> string \<Rightarrow> buffer"
  have hyp: "afterChecksum
       (fst (snd (fetchPackageFromNixStore (demo_env False []) createHash () None demo_callbacks ())))
     = Some (ExistsPromise (computeFixedOutputStorePath_default createHash
                              (sanitizeDerivationName ''left-pad@npm:1.3.0.zip'') ''nix.1/00ff'') False)"
    by (simp add: demo_mismatch Let_def CACHE_KEY_NS_def)
  have res: "fst (fetchPackageFromNixStore (demo_env False []) createHash () None demo_callbacks ())
       = Inl AssertionFailure"
    by (simp add: demo_mismatch Let_def)
  from fetch_import [OF run_triple hyp] hyp res
  show "afterChecksum
       (fst (snd (fetchPackageFromNixStore (demo_env False []) createHash () None demo_callbacks ())))
     = Some (ExistsPromise (computeFixedOutputStorePath_default createHash
                              (sanitizeDerivationName ''left-pad@npm:1.3.0.zip'') ''nix.1/00ff'') False)
     \<and> (\<exists>resultPath. Loader (Inr resultPath)
           \<in> set (fst (snd (fetchPackageFromNixStore (demo_env False []) createHash () None
                              demo_callbacks ()))))
     \<and> fst (fetchPackageFromNixStore (demo_env False []) createHash () None demo_callbacks ())
       = Inl AssertionFailure"
    by blast
qed

end
